theory Spec2Isabelle
  imports Main "HOL-Library.Multiset"
begin

text \<open>
  A shallow embedding of the campaign engine of \<open>mail.py\<close>: the recipient loader
  (\<open>load_email_list\<close>), the progress ledger (\<open>load_progress\<close>, \<open>mark_email_sent\<close>,
  \<open>get_unsent_emails\<close>), the emailer (\<open>validate_email\<close>, \<open>send_email\<close>) and the driver
  (\<open>run_email_campaign\<close>). Files, the provider's client, the clock and the random numbers
  are parameters; an exception is a value; a dictionary that is mutated is passed in and
  returned.
\<close>

section \<open>Python strings\<close>

text \<open>
  A Python \<open>str\<close> is modelled as a \<open>string\<close>; a \<open>char\<close> stands for the code point of
  the same number, so the model covers text whose code points are below 256.
  \<open>str.lower\<close> maps the upper-case letters of that range (A-Z, and the accented capitals
  0xC0-0xDE without the multiplication sign 0xD7) to the letter 32 places further on;
  \<open>str.strip\<close> removes the white space of that range from both ends.
\<close>

definition is_upper :: "char \<Rightarrow> bool" where
  "is_upper c = (let n = (of_char c :: nat)
     in (65 \<le> n \<and> n \<le> 90) \<or> (192 \<le> n \<and> n \<le> 214) \<or> (216 \<le> n \<and> n \<le> 222))"

definition lower_char :: "char \<Rightarrow> char" where
  "lower_char c = (if is_upper c then char_of (of_char c + (32::nat)) else c)"

definition lower :: "string \<Rightarrow> string" where
  "lower s = map lower_char s"

definition is_space :: "char \<Rightarrow> bool" where
  "is_space c = (let n = (of_char c :: nat)
     in (9 \<le> n \<and> n \<le> 13) \<or> (28 \<le> n \<and> n \<le> 32) \<or> n = 133 \<or> n = 160)"

definition strip :: "string \<Rightarrow> string" where
  "strip s = rev (dropWhile is_space (rev (dropWhile is_space s)))"

text \<open>\<open>sub in s\<close> on strings: \<open>sub\<close> occurs in \<open>s\<close> as a contiguous piece.\<close>

fun contains :: "string \<Rightarrow> string \<Rightarrow> bool" where
  "contains sub [] = (sub = [])"
| "contains sub (c # cs) = (take (length sub) (c # cs) = sub \<or> contains sub cs)"

text \<open>\<open>len(s.split(c))\<close>: one piece more than there are separators.\<close>

definition split_len :: "char \<Rightarrow> string \<Rightarrow> nat" where
  "split_len c s = Suc (count_list s c)"

section \<open>Exceptions\<close>

datatype exn_class = ValueError | AttributeError | TypeError | UnicodeDecodeError | OtherException

datatype exn = Exn (exn_class: exn_class) (exn_msg: string)

section \<open>The progress ledger (the JSON progress file)\<close>

text \<open>
  The JSON values a field of the ledger can hold, with Python's truth value of each.
  \<open>JOther b\<close> is any value that is not null, a boolean, an integer or a string (an
  array, an object, a number with a fraction); \<open>b\<close> is its truth value.
\<close>

datatype jval = JNull | JBool bool | JInt int | JStr string | JOther bool

fun truthy :: "jval \<Rightarrow> bool" where
  "truthy JNull = False"
| "truthy (JBool b) = b"
| "truthy (JInt n) = (n \<noteq> 0)"
| "truthy (JStr s) = (s \<noteq> [])"
| "truthy (JOther b) = b"

type_synonym jdict = "string \<rightharpoonup> jval"

text \<open>\<open>d.get(k, dflt)\<close>\<close>

definition dict_get :: "jdict \<Rightarrow> string \<Rightarrow> jval \<Rightarrow> jval" where
  "dict_get d k dflt = (case d k of None \<Rightarrow> dflt | Some v \<Rightarrow> v)"

text \<open>
  An entry of \<open>sent_emails\<close> is a dict, or something else (\<open>isinstance(item, dict)\<close> is
  false), which the code only ever reads through \<open>str(item)\<close>: \<open>NotDict s\<close> is such an
  entry with \<open>str(item) = s\<close>.
\<close>

datatype item = Dict jdict | NotDict string

text \<open>
  What the progress file can hold under the two keys the code reads, since the file is
  returned as it was parsed. Under \<open>sent_emails\<close>: an array (\<open>Entries\<close>), or a string or
  an object (\<open>Sized\<close>), which has a length and is iterated like a list (a string gives
  its characters, an object its keys, all of them strings) but has no \<open>append\<close>. Under
  \<open>campaign_stats\<close>: an object (\<open>Stats\<close>), or any other value (\<open>NotStats\<close>: null, a
  number, a string, an array), which has no \<open>get\<close> and takes no item assignment.
  In \<open>progress_data\<close>, \<open>None\<close> is a missing key.
\<close>

datatype sent_val = Entries "item list" | Sized "string list"

datatype stats_val = Stats jdict | NotStats

record progress_data =
  sent_emails :: "sent_val option"
  campaign_stats :: "stats_val option"

definition fresh_progress :: progress_data where
  "fresh_progress = \<lparr>sent_emails = Some (Entries []),
     campaign_stats = Some (Stats [''total_sent'' \<mapsto> JInt 0, ''last_run'' \<mapsto> JNull])\<rparr>"

text \<open>What iterating \<open>progress_data.get("sent_emails", [])\<close> gives; its \<open>len\<close> is the length.\<close>

fun sent_items :: "sent_val option \<Rightarrow> item list" where
  "sent_items None = []"
| "sent_items (Some (Entries xs)) = xs"
| "sent_items (Some (Sized ss)) = map NotDict ss"

definition attempts :: "progress_data \<Rightarrow> item list" where
  "attempts pd = sent_items (sent_emails pd)"

text \<open>
  What reading the progress file gives: no file, an exception of \<open>open\<close> or \<open>json.load\<close>
  (unreadable or not JSON), or a JSON document. \<open>NotALedger\<close> is a document on which the
  logging line \<open>len(progress.get('sent_emails', []))\<close> raises: one that is not an object,
  or whose \<open>sent_emails\<close> is null, a boolean or a number. Every other document is an
  object whose \<open>sent_emails\<close> is missing or has a length (\<open>Ledger\<close>), whatever else it
  holds.
\<close>

datatype json_doc = Ledger progress_data | NotALedger

datatype progress_read = NoFile | ReadRaises exn | Loaded json_doc

text \<open>The body of the \<open>try\<close> in \<open>load_progress\<close>, then the function with its handler.\<close>

fun load_progress_try :: "progress_read \<Rightarrow> exn + progress_data" where
  "load_progress_try NoFile = Inr fresh_progress"
| "load_progress_try (ReadRaises e) = Inl e"
| "load_progress_try (Loaded (Ledger pd)) = Inr pd"
| "load_progress_try (Loaded NotALedger) = Inl (Exn TypeError ''sent_emails has no len()'')"

definition load_progress :: "progress_read \<Rightarrow> progress_data" where
  "load_progress r = (case load_progress_try r of
       Inl e \<Rightarrow> fresh_progress
     | Inr pd \<Rightarrow> pd)"

text \<open>
  \<open>progress_data["campaign_stats"]\<close> used as a dict: \<open>stats_item\<close> where the key must be
  there, \<open>stats_or dflt\<close> where a missing key has been given the value \<open>dflt\<close> before.
  The result is \<open>None\<close> where the use raises.
\<close>

fun stats_item :: "stats_val option \<Rightarrow> jdict option" where
  "stats_item None = None"
| "stats_item (Some (Stats st)) = Some st"
| "stats_item (Some NotStats) = None"

fun stats_or :: "jdict \<Rightarrow> stats_val option \<Rightarrow> jdict option" where
  "stats_or dflt None = Some dflt"
| "stats_or dflt (Some (Stats st)) = Some st"
| "stats_or dflt (Some NotStats) = None"

text \<open>
  \<open>save_progress\<close>: stamps \<open>last_run\<close> and writes the file; the result is the ledger in
  memory and what was written (\<open>None\<close> when the stamping raised, on a missing
  \<open>campaign_stats\<close> or on one that is no object, and the exception was caught before the
  write).
\<close>

definition save_progress :: "string \<Rightarrow> progress_data \<Rightarrow> progress_data \<times> progress_data option" where
  "save_progress now pd = (case stats_item (campaign_stats pd) of
       None \<Rightarrow> (pd, None)
     | Some st \<Rightarrow> (let pd' = pd\<lparr>campaign_stats := Some (Stats (st(''last_run'' \<mapsto> JStr now)))\<rparr>
                  in (pd', Some pd')))"

text \<open>The address the code reads off an entry: \<open>item.get("email", "")\<close> or \<open>str(item)\<close>.\<close>

fun item_email :: "item \<Rightarrow> jval" where
  "item_email (Dict d) = dict_get d ''email'' (JStr '''')"
| "item_email (NotDict s) = JStr s"

fun item_successful :: "item \<Rightarrow> bool" where
  "item_successful (Dict d) = truthy (dict_get d ''success'' (JBool False))"
| "item_successful (NotDict s) = False"

fun item_failed :: "item \<Rightarrow> bool" where
  "item_failed (Dict d) = (\<not> truthy (dict_get d ''success'' (JBool True)))"
| "item_failed (NotDict s) = False"

text \<open>\<open>progress_data["sent_emails"].append(r)\<close>; \<open>None\<close> where there is no \<open>append\<close>.\<close>

fun sent_append :: "item \<Rightarrow> sent_val \<Rightarrow> sent_val option" where
  "sent_append r (Entries xs) = Some (Entries (xs @ [r]))"
| "sent_append r (Sized ss) = None"

text \<open>
  \<open>mark_email_sent(email, success, error_message)\<close>; \<open>now\<close> is what
  \<open>datetime.now().isoformat()\<close> returns. The ledger is changed in place, so the result is
  the exception raised, if any, and the ledger as it is then: the \<open>append\<close> raises on a
  \<open>sent_emails\<close> that is no array, and the first assignment to a counter raises on a
  \<open>campaign_stats\<close> that is no object, after the record has been appended.
\<close>

definition mark_email_sent ::
  "string \<Rightarrow> bool \<Rightarrow> string \<Rightarrow> string \<Rightarrow> progress_data \<Rightarrow> exn option \<times> progress_data" where
  "mark_email_sent email succ error_message now pd =
    (let email_record = Dict [''email'' \<mapsto> JStr email, ''timestamp'' \<mapsto> JStr now,
                               ''success'' \<mapsto> JBool succ, ''error'' \<mapsto> JStr error_message];
         sent = (case sent_emails pd of None \<Rightarrow> Entries [] | Some v \<Rightarrow> v);
         pd0 = pd\<lparr>sent_emails := Some sent\<rparr>;
         existing_emails = map item_email (attempts pd0)
     in case (if JStr email \<notin> set existing_emails then sent_append email_record sent
              else Some sent) of
          None \<Rightarrow> (Some (Exn AttributeError ''object has no attribute append''), pd0)
        | Some sent' \<Rightarrow>
            (let pd1 = pd0\<lparr>sent_emails := Some sent'\<rparr>
             in case stats_or [''total_sent'' \<mapsto> JInt 0, ''successful'' \<mapsto> JInt 0,
                               ''failed'' \<mapsto> JInt 0] (campaign_stats pd) of
                  None \<Rightarrow>
                    (Some (Exn TypeError ''object does not support item assignment''), pd1)
                | Some stats \<Rightarrow>
                    (let successful = length (filter item_successful (attempts pd1));
                         failed = length (filter item_failed (attempts pd1))
                     in (None,
                         pd1\<lparr>campaign_stats := Some (Stats
                           (stats(''total_sent'' \<mapsto> JInt (int (length (attempts pd1))),
                                  ''successful'' \<mapsto> JInt (int successful),
                                  ''failed'' \<mapsto> JInt (int failed))))\<rparr>))))"

section \<open>The recipient source (the CSV file)\<close>

text \<open>
  A row of \<open>csv.DictReader\<close>: a cell is a string, or \<open>None\<close> where the row is shorter
  than the header. What reading the file under one encoding gives: an exception before
  the header is read, or the field names, the rows read, and the exception that ended the
  reading, if one did (a \<open>UnicodeDecodeError\<close> further down the file, for instance).
\<close>

type_synonym row = "string \<rightharpoonup> string option"

datatype csv_read = ReadFails exn | CsvRead "string list" "row list" "exn option"

record csv_source =
  csv_exists :: bool
  csv_read_as :: "string \<Rightarrow> csv_read"

definition encodings_to_try :: "string list" where
  "encodings_to_try = [''utf-8'', ''utf-8-sig'', ''iso-8859-1'', ''cp1252'']"

definition find_email_column :: "string list \<Rightarrow> string option" where
  "find_email_column fieldnames =
    (case find (\<lambda>column. lower (strip column) \<in> set [''email'', ''emails'', ''email_address'', ''e-mail''])
               fieldnames of
       Some column \<Rightarrow> Some column
     | None \<Rightarrow> find (\<lambda>column. contains ''email'' (lower (strip column))) fieldnames)"

definition accepted :: "string \<Rightarrow> bool" where
  "accepted email_value = (email_value \<noteq> [] \<and> CHR ''@'' \<in> set email_value
     \<and> CHR ''.'' \<in> set email_value \<and> split_len CHR ''@'' email_value = 2)"

text \<open>
  The loop over the rows: the list \<open>emails\<close> grows; a \<open>None\<close> cell raises
  (\<open>None.strip()\<close>), and so does the end of the reading when it is an exception. The
  result is the exception raised, if any, and \<open>emails\<close> as it is then.
\<close>

fun read_rows :: "string \<Rightarrow> row list \<Rightarrow> exn option \<Rightarrow> string list \<Rightarrow> exn option \<times> string list" where
  "read_rows email_column [] ending emails = (ending, emails)"
| "read_rows email_column (r # rs) ending emails =
    (case (case r email_column of None \<Rightarrow> Some '''' | Some cell \<Rightarrow> cell) of
       None \<Rightarrow> (Some (Exn AttributeError ''NoneType has no attribute strip''), emails)
     | Some cell \<Rightarrow>
         (let email_value = strip cell
          in read_rows email_column rs ending
               (if accepted email_value then emails @ [lower email_value] else emails)))"

text \<open>
  One turn of the loop over the encodings. Every exception is caught and the loop goes
  on, so a turn only changes \<open>emails\<close>.
\<close>

fun try_encoding :: "csv_read \<Rightarrow> string list \<Rightarrow> string list" where
  "try_encoding (ReadFails e) emails = emails"
| "try_encoding (CsvRead fieldnames rs ending) emails =
    (if fieldnames = [] then emails
     else case find_email_column fieldnames of
            None \<Rightarrow> emails
          | Some email_column \<Rightarrow> snd (read_rows email_column rs ending emails))"

definition raw_emails :: "csv_source \<Rightarrow> string list" where
  "raw_emails src = foldl (\<lambda>emails encoding. try_encoding (csv_read_as src encoding) emails)
                          [] encodings_to_try"

text \<open>\<open>list(dict.fromkeys(emails))\<close>: a key keeps the place of its first insertion.\<close>

definition dict_fromkeys :: "'a list \<Rightarrow> 'a list" where
  "dict_fromkeys xs = foldl (\<lambda>keys x. if x \<in> set keys then keys else keys @ [x]) [] xs"

definition load_email_list :: "csv_source \<Rightarrow> string list" where
  "load_email_list src =
    (if \<not> csv_exists src then []
     else let emails = raw_emails src
          in if emails = [] then [] else dict_fromkeys emails)"

text \<open>
  Keeping the first occurrence of every element, written as the specification words it
  (first occurrence wins, order otherwise preserved); compared with \<open>dict_fromkeys\<close> below.
\<close>

fun first_seen :: "'a list \<Rightarrow> 'a list" where
  "first_seen [] = []"
| "first_seen (x # xs) = x # first_seen (filter (\<lambda>y. y \<noteq> x) xs)"

section \<open>The unsent computation and the batch\<close>

text \<open>
  The set \<open>sent_email_addresses\<close>, kept as the list of its insertions. An entry whose
  address is true but not a string has no \<open>lower\<close>: the loop raises.
\<close>

fun sent_addresses :: "item list \<Rightarrow> string list \<Rightarrow> exn + string list" where
  "sent_addresses [] acc = Inr acc"
| "sent_addresses (it # its) acc =
    (case item_email it of
       JStr email \<Rightarrow> sent_addresses its (if email \<noteq> [] then acc @ [lower email] else acc)
     | v \<Rightarrow> if truthy v then Inl (Exn AttributeError ''object has no attribute lower'')
            else sent_addresses its acc)"

definition unsent_emails :: "csv_source \<Rightarrow> progress_data \<Rightarrow> exn + string list" where
  "unsent_emails src pd =
    (let all_emails = load_email_list src
     in case sent_addresses (attempts pd) [] of
          Inl e \<Rightarrow> Inl e
        | Inr sent_email_addresses \<Rightarrow>
            Inr (filter (\<lambda>email. lower email \<notin> set sent_email_addresses) all_emails))"

text \<open>
  Modelled from the spec: \<open>random.sample\<close> is the standard library's and not among the
  sources; the specification has it draw the elements at random without replacement.
  The random numbers are a parameter: \<open>rnd i\<close> is the number drawn at the \<open>i\<close>-th draw,
  reduced to the size of what is left. A draw takes the element at that place out of the
  pool and moves the last element of the pool into the gap. Asking for a negative number
  of elements, or for more than there are, is a \<open>ValueError\<close>.
\<close>

fun sample_pool :: "'a list \<Rightarrow> nat \<Rightarrow> (nat \<Rightarrow> nat) \<Rightarrow> nat \<Rightarrow> 'a list" where
  "sample_pool pool 0 rnd i = []"
| "sample_pool pool (Suc k) rnd i =
    (if pool = [] then []
     else let j = rnd i mod length pool
          in pool ! j # sample_pool (butlast (pool[j := last pool])) k rnd (Suc i))"

definition random_sample :: "'a list \<Rightarrow> int \<Rightarrow> (nat \<Rightarrow> nat) \<Rightarrow> exn + 'a list" where
  "random_sample population k rnd =
    (if k < 0 \<or> int (length population) < k
     then Inl (Exn ValueError ''Sample larger than population or is negative'')
     else Inr (sample_pool population (nat k) rnd 0))"

definition get_unsent_emails ::
  "csv_source \<Rightarrow> progress_data \<Rightarrow> int \<Rightarrow> (nat \<Rightarrow> nat) \<Rightarrow> exn + string list" where
  "get_unsent_emails src pd limit rnd =
    (case unsent_emails src pd of
       Inl e \<Rightarrow> Inl e
     | Inr unsent \<Rightarrow>
         if unsent = [] then Inr []
         else let selected_count = min limit (int (length unsent))
              in random_sample unsent selected_count rnd)"

record campaign_status =
  total_emails_in_csv :: int
  emails_sent :: int
  emails_remaining :: int
  successful_sends :: jval
  failed_sends :: jval
  last_run :: jval

text \<open>
  \<open>get_campaign_stats\<close>: \<open>stats\<close> is \<open>progress_data.get("campaign_stats", {})\<close>, and
  \<open>stats.get\<close> raises when that is no object. The remaining count is a difference of two
  lengths and can be negative.
\<close>

definition get_campaign_stats :: "csv_source \<Rightarrow> progress_data \<Rightarrow> exn + campaign_status" where
  "get_campaign_stats src pd =
    (let all_emails = load_email_list src;
         sent_count = int (length (attempts pd))
     in case stats_or Map.empty (campaign_stats pd) of
          None \<Rightarrow> Inl (Exn AttributeError ''object has no attribute get'')
        | Some stats \<Rightarrow>
            Inr \<lparr>total_emails_in_csv = int (length all_emails),
                 emails_sent = sent_count,
                 emails_remaining = int (length all_emails) - sent_count,
                 successful_sends = dict_get stats ''successful'' (JInt 0),
                 failed_sends = dict_get stats ''failed'' (JInt 0),
                 last_run = dict_get stats ''last_run'' (JStr ''Never'')\<rparr>)"

section \<open>The emailer\<close>

text \<open>
  \<open>validate_email\<close>: \<open>re.match\<close> of the pattern
  \<^verbatim>\<open>^[a-zA-Z0-9._%+-]+@[a-zA-Z0-9.-]+\.[a-zA-Z]{2,}$\<close>.
  Neither character class has the at sign, so the local part is what stands before the
  first one; the last class has no dot, so the top-level part is what stands after the
  last dot. \<open>$\<close> also matches before a line feed that ends the string.
\<close>

definition is_alpha :: "char \<Rightarrow> bool" where
  "is_alpha c = (let n = (of_char c :: nat) in (65 \<le> n \<and> n \<le> 90) \<or> (97 \<le> n \<and> n \<le> 122))"

definition is_digit :: "char \<Rightarrow> bool" where
  "is_digit c = (let n = (of_char c :: nat) in 48 \<le> n \<and> n \<le> 57)"

definition local_char :: "char \<Rightarrow> bool" where
  "local_char c = (is_alpha c \<or> is_digit c \<or> c \<in> set ''._%+-'')"

definition domain_char :: "char \<Rightarrow> bool" where
  "domain_char c = (is_alpha c \<or> is_digit c \<or> c \<in> set ''.-'')"

definition full_match :: "string \<Rightarrow> bool" where
  "full_match t =
    (let local_part = takeWhile (\<lambda>c. c \<noteq> CHR ''@'') t;
         rest = drop (Suc (length local_part)) t;
         tld = rev (takeWhile (\<lambda>c. c \<noteq> CHR ''.'') (rev rest));
         dom = take (length rest - Suc (length tld)) rest
     in length local_part < length t \<and> local_part \<noteq> [] \<and> list_all local_char local_part
        \<and> length tld < length rest \<and> dom \<noteq> [] \<and> list_all domain_char dom
        \<and> 2 \<le> length tld \<and> list_all is_alpha tld)"

definition validate_email :: "string \<Rightarrow> bool" where
  "validate_email email =
     full_match (if email \<noteq> [] \<and> last email = CHR 0x0A then butlast email else email)"

text \<open>
  The pattern read as a regular expression, for comparison with \<open>full_match\<close> below:
  a local part, the at sign, a domain, a dot and a top-level part of two letters or more.
\<close>

definition matches_pattern :: "string \<Rightarrow> bool" where
  "matches_pattern t = (\<exists>l d tl. t = l @ CHR ''@'' # d @ CHR ''.'' # tl
       \<and> l \<noteq> [] \<and> list_all local_char l \<and> d \<noteq> [] \<and> list_all domain_char d
       \<and> 2 \<le> length tl \<and> list_all is_alpha tl)"

text \<open>
  The message handed to the provider's client, and its answer. \<open>sg.send\<close> is the
  gateway: it answers or raises. Of the answer the status and the body are kept; its
  headers, which \<open>send_email\<close> only copies into its result, are left out.
\<close>

record mail =
  mail_from :: string
  mail_from_name :: "string option"
  mail_to :: "string list"
  mail_subject :: string
  mail_content :: "(string \<times> string) list"

record response =
  resp_status :: int
  resp_body :: string

type_synonym gateway = "mail \<Rightarrow> exn + response"

text \<open>
  The dictionary \<open>send_email\<close> returns, by the keys that are read afterwards
  (\<open>success\<close>, \<open>status_code\<close>, \<open>error\<close>); a missing key is \<open>None\<close>.
\<close>

record send_result =
  success :: bool
  status_code :: "int option"
  error :: "string option"

text \<open>The \<open>Mail\<close> object \<open>send_email\<close> builds once its checks have passed.\<close>

definition build_message ::
  "string \<Rightarrow> string list \<Rightarrow> string \<Rightarrow> string \<Rightarrow> string \<Rightarrow> string \<Rightarrow> mail" where
  "build_message from_email to_emails subject plain_text_content html_content from_name =
     \<lparr>mail_from = from_email,
      mail_from_name = (if from_name \<noteq> [] then Some from_name else None),
      mail_to = to_emails,
      mail_subject = subject,
      mail_content =
        (if plain_text_content \<noteq> [] then [(''text/plain'', plain_text_content)] else [])
        @ (if html_content \<noteq> [] then [(''text/html'', html_content)] else [])\<rparr>"

text \<open>
  The body of the \<open>try\<close> in \<open>send_email\<close>: what it returns or raises, and the messages
  handed to the gateway on the way.
\<close>

definition send_email_try ::
  "gateway \<Rightarrow> string \<Rightarrow> string list \<Rightarrow> string \<Rightarrow> string \<Rightarrow> string \<Rightarrow> string
     \<Rightarrow> (exn + send_result) \<times> mail list" where
  "send_email_try sg_send from_email to_emails subject plain_text_content html_content from_name =
    (if \<not> validate_email from_email
       then (Inl (Exn ValueError (''Invalid sender email: '' @ from_email)), [])
     else if to_emails = []
       then (Inl (Exn ValueError ''At least one recipient email is required''), [])
     else case find (\<lambda>email. \<not> validate_email email) to_emails of
       Some email \<Rightarrow> (Inl (Exn ValueError (''Invalid recipient email: '' @ email)), [])
     | None \<Rightarrow>
        (if strip subject = []
           then (Inl (Exn ValueError ''Email subject cannot be empty''), [])
         else if plain_text_content = [] \<and> html_content = []
           then (Inl (Exn ValueError ''Either plain text or HTML content is required''), [])
         else
           (let message = build_message from_email to_emails subject plain_text_content
                            html_content from_name
            in (case sg_send message of
                  Inl e \<Rightarrow> (Inl e, [message])
                | Inr resp \<Rightarrow>
                    (if resp_status resp \<in> set [200, 201, 202]
                     then (Inr \<lparr>success = True, status_code = Some (resp_status resp),
                                error = None\<rparr>, [message])
                     else (Inr \<lparr>success = False, status_code = Some (resp_status resp),
                                error = None\<rparr>, [message]))))))"

definition send_email ::
  "gateway \<Rightarrow> string \<Rightarrow> string list \<Rightarrow> string \<Rightarrow> string \<Rightarrow> string \<Rightarrow> string
     \<Rightarrow> send_result \<times> mail list" where
  "send_email sg_send from_email to_emails subject plain_text_content html_content from_name =
    (case send_email_try sg_send from_email to_emails subject plain_text_content html_content
            from_name of
       (Inl e, calls) \<Rightarrow> (\<lparr>success = False, status_code = None, error = Some (exn_msg e)\<rparr>, calls)
     | (Inr result, calls) \<Rightarrow> (result, calls))"

section \<open>The campaign driver\<close>

text \<open>
  What a run reads from outside: the CSV file, the progress file, the settings, the
  content file (\<open>read_email_content\<close> returns subject, plain text and HTML, or raises),
  the gateway, the random numbers and the clock (\<open>env_now i\<close> is the time stamp taken
  for the \<open>i\<close>-th recipient of the batch).
\<close>

record env =
  env_csv :: csv_source
  env_progress :: progress_read
  env_api_key :: string
  env_sender_email :: string
  env_sender_name :: string
  env_content :: "exn + string \<times> string \<times> string"
  env_send :: gateway
  env_rnd :: "nat \<Rightarrow> nat"
  env_now :: "nat \<Rightarrow> string"

text \<open>
  \<open>send_campaign_email\<close>: building the emailer raises without an API key; an exception
  of the content file is returned as a failure, without a call of the gateway.
\<close>

definition send_campaign_email :: "env \<Rightarrow> string \<Rightarrow> exn + send_result \<times> mail list" where
  "send_campaign_email e recipient_email =
    (if env_api_key e = [] then Inl (Exn ValueError ''SendGrid API key is required.'')
     else case env_content e of
            Inl ex \<Rightarrow> Inr (\<lparr>success = False, status_code = None, error = Some (exn_msg ex)\<rparr>, [])
          | Inr (subject, plain_text_message, html_message) \<Rightarrow>
              Inr (send_email (env_send e) (env_sender_email e) [recipient_email] subject
                     plain_text_message html_message (env_sender_name e)))"

text \<open>
  The state of a run: the ledger in memory, the messages handed to the gateway so far,
  the last ledger written to the progress file, and the two counters of the batch.
\<close>

record run_state =
  rs_progress :: progress_data
  rs_calls :: "mail list"
  rs_saved :: "progress_data option"
  rs_successful :: nat
  rs_failed :: nat

text \<open>
  The loop over the batch; \<open>i\<close> counts the recipients from 0. The counter of the batch
  is raised before the attempt is recorded, and an exception of \<open>mark_email_sent\<close> ends
  the loop before the ledger is saved.
\<close>

fun send_batch :: "env \<Rightarrow> string list \<Rightarrow> nat \<Rightarrow> run_state \<Rightarrow> exn option \<times> run_state" where
  "send_batch e [] i st = (None, st)"
| "send_batch e (recipient_email # remaining) i st =
    (case send_campaign_email e recipient_email of
       Inl ex \<Rightarrow> (Some ex, st)
     | Inr (result, calls) \<Rightarrow>
         (let st1 = st\<lparr>rs_calls := rs_calls st @ calls,
                       rs_successful :=
                         (if success result then Suc (rs_successful st) else rs_successful st),
                       rs_failed :=
                         (if success result then rs_failed st else Suc (rs_failed st))\<rparr>;
              (raised, marked) =
                (if success result
                 then mark_email_sent recipient_email True [] (env_now e i) (rs_progress st)
                 else mark_email_sent recipient_email False
                        (case error result of None \<Rightarrow> ''Unknown error'' | Some msg \<Rightarrow> msg)
                        (env_now e i) (rs_progress st))
          in case raised of
               Some ex \<Rightarrow> (Some ex, st1\<lparr>rs_progress := marked\<rparr>)
             | None \<Rightarrow>
                 (let (pd', written) = save_progress (env_now e i) marked
                  in send_batch e remaining (Suc i)
                       (st1\<lparr>rs_progress := pd',
                            rs_saved := (case written of None \<Rightarrow> rs_saved st
                                         | Some w \<Rightarrow> Some w)\<rparr>))))"

text \<open>
  How a run ends: with the message "Campaign complete! All emails have been sent.", with
  "No emails to send!", with "Error initializing emailer", with "BATCH COMPLETE!", or with
  an exception that nothing catches.
\<close>

datatype run_outcome =
    CampaignComplete
  | NoEmailsToSend
  | EmailerInitError
  | BatchComplete
  | Raised exn

definition run_email_campaign :: "env \<Rightarrow> int \<Rightarrow> run_outcome \<times> run_state" where
  "run_email_campaign e batch_size =
    (let pd = load_progress (env_progress e);
         st = \<lparr>rs_progress = pd, rs_calls = [], rs_saved = None, rs_successful = 0, rs_failed = 0\<rparr>
     in case get_campaign_stats (env_csv e) pd of
          Inl ex \<Rightarrow> (Raised ex, st)
        | Inr stats \<Rightarrow>
           (if emails_remaining stats = 0 then (CampaignComplete, st)
            else (case get_unsent_emails (env_csv e) pd batch_size (env_rnd e) of
                Inl ex \<Rightarrow> (Raised ex, st)
              | Inr target_emails \<Rightarrow>
                  (if target_emails = [] then (NoEmailsToSend, st)
                   else if env_api_key e = [] then (EmailerInitError, st)
                   else (case send_batch e target_emails 0 st of
                           (Some ex, st') \<Rightarrow> (Raised ex, st')
                         | (None, st') \<Rightarrow>
                             (case get_campaign_stats (env_csv e) (rs_progress st') of
                                Inl ex \<Rightarrow> (Raised ex, st')
                              | Inr updated_stats \<Rightarrow> (BatchComplete, st')))))))"

section \<open>Sequences of calls and example inputs\<close>

text \<open>
  A finite sequence of \<open>mark_email_sent\<close> calls, each given by its address, its success
  flag, its error message and the time stamp it takes.
\<close>

fun mark_all ::
  "(string \<times> bool \<times> string \<times> string) list \<Rightarrow> progress_data \<Rightarrow> exn option \<times> progress_data" where
  "mark_all [] pd = (None, pd)"
| "mark_all ((email, succ, error_message, now) # calls) pd =
     (case mark_email_sent email succ error_message now pd of
        (Some ex, pd') \<Rightarrow> (Some ex, pd')
      | (None, pd') \<Rightarrow> mark_all calls pd')"

text \<open>
  A counter of the ledger as \<open>get_campaign_stats\<close> reads it: \<open>stats.get(k, 0)\<close>, which
  raises when \<open>campaign_stats\<close> is no object.
\<close>

definition stats_get :: "progress_data \<Rightarrow> string \<Rightarrow> exn + jval" where
  "stats_get pd k = (case stats_or Map.empty (campaign_stats pd) of
       None \<Rightarrow> Inl (Exn AttributeError ''object has no attribute get'')
     | Some stats \<Rightarrow> Inr (dict_get stats k (JInt 0)))"

text \<open>
  A well-formed ledger: \<open>sent_emails\<close> is an array and \<open>campaign_stats\<close> an object, where
  they are there at all. These are the ledgers on which no operation raises.
\<close>

fun is_entries :: "sent_val option \<Rightarrow> bool" where
  "is_entries None = True"
| "is_entries (Some (Entries xs)) = True"
| "is_entries (Some (Sized ss)) = False"

fun is_stats :: "stats_val option \<Rightarrow> bool" where
  "is_stats None = True"
| "is_stats (Some (Stats st)) = True"
| "is_stats (Some NotStats) = False"

definition well_formed :: "progress_data \<Rightarrow> bool" where
  "well_formed pd = (is_entries (sent_emails pd) \<and> is_stats (campaign_stats pd))"

text \<open>
  An entry as \<open>mark_email_sent\<close> writes it: a dict whose \<open>success\<close> is a boolean.
\<close>

definition bool_success :: "item \<Rightarrow> bool" where
  "bool_success it = (case it of
       Dict d \<Rightarrow> (case d ''success'' of Some (JBool b) \<Rightarrow> True | _ \<Rightarrow> False)
     | NotDict s \<Rightarrow> False)"

definition counters_agree :: "progress_data \<Rightarrow> bool" where
  "counters_agree pd = (stats_get pd ''total_sent'' = Inr (JInt (int (length (attempts pd))))
     \<and> (\<exists>s f. stats_get pd ''successful'' = Inr (JInt s) \<and> stats_get pd ''failed'' = Inr (JInt f)
          \<and> s + f = int (length (attempts pd))))"

text \<open>The checks of \<open>send_email\<close> that raise before the message is built.\<close>

definition locally_rejected :: "string \<Rightarrow> string list \<Rightarrow> string \<Rightarrow> string \<Rightarrow> string \<Rightarrow> bool" where
  "locally_rejected from_email to_emails subject plain html =
     (\<not> validate_email from_email \<or> to_emails = []
      \<or> find (\<lambda>email. \<not> validate_email email) to_emails \<noteq> None
      \<or> strip subject = [] \<or> (plain = [] \<and> html = []))"

text \<open>Two gateways: one that accepts every message, one whose call raises.\<close>

definition gateway_accepts :: gateway where
  "gateway_accepts m = Inr \<lparr>resp_status = 202, resp_body = []\<rparr>"

definition gateway_times_out :: gateway where
  "gateway_times_out m = Inl (Exn OtherException ''timed out'')"

text \<open>An address as the loader stores it: not empty, and in lower case.\<close>

definition normal_address :: "string \<Rightarrow> bool" where
  "normal_address e = (e \<noteq> [] \<and> lower e = e)"

text \<open>
  Example sources. A row with the one column \<open>email\<close>; a file that reads the same under
  the four encodings (one of ASCII bytes); a file in UTF-8 with text beyond ASCII, which
  reads one way under the two UTF-8 encodings and another way under the two single-byte
  encodings, neither of them raising.
\<close>

definition email_row :: "string \<Rightarrow> row" where
  "email_row cell = [''email'' \<mapsto> Some cell]"

definition same_under_all :: "csv_read \<Rightarrow> csv_source" where
  "same_under_all r = \<lparr>csv_exists = True, csv_read_as = (\<lambda>encoding. r)\<rparr>"

definition utf8_file :: "csv_read \<Rightarrow> csv_read \<Rightarrow> csv_source" where
  "utf8_file as_utf8 as_single_byte =
     \<lparr>csv_exists = True,
      csv_read_as = (\<lambda>encoding. if encoding \<in> set [''utf-8'', ''utf-8-sig'']
                                then as_utf8 else as_single_byte)\<rparr>"

text \<open>
  Example runs: a list of two addresses and a list of one; a ledger with one failed
  attempt, its address in upper case; ledgers with one and with two successful attempts;
  two ledgers as a progress file edited by hand can hold them, one whose
  \<open>campaign_stats\<close> is null and one whose \<open>sent_emails\<close> is the string \<open>abc\<close>;
  and the environment of a run with a given list and ledger, a gateway that accepts, and
  all settings and content present.
\<close>

definition two_addresses :: csv_source where
  "two_addresses = same_under_all (CsvRead [''email'']
       [email_row ''a@x.com'', email_row ''b@x.com''] None)"

definition failed_upper_case :: progress_data where
  "failed_upper_case =
     snd (mark_email_sent ''A@X.com'' False ''bounced'' ''t1'' fresh_progress)"

definition one_address :: csv_source where
  "one_address = same_under_all (CsvRead [''email''] [email_row ''a@x.com''] None)"

definition campaign_env :: "csv_source \<Rightarrow> progress_data \<Rightarrow> env" where
  "campaign_env src ledger =
     \<lparr>env_csv = src, env_progress = Loaded (Ledger ledger), env_api_key = ''SG.key'',
      env_sender_email = ''me@x.com'', env_sender_name = ''Me'',
      env_content = Inr (''Hello'', ''text'', []), env_send = gateway_accepts,
      env_rnd = id, env_now = (\<lambda>i. ''now'')\<rparr>"

definition sent_a :: progress_data where
  "sent_a = snd (mark_all [(''a@x.com'', True, [], ''t1'')] fresh_progress)"

definition sent_a_and_b :: progress_data where
  "sent_a_and_b = snd (mark_all [(''a@x.com'', True, [], ''t1''), (''b@x.com'', True, [], ''t2'')]
                    fresh_progress)"

definition null_stats_ledger :: progress_data where
  "null_stats_ledger = \<lparr>sent_emails = Some (Entries []), campaign_stats = Some NotStats\<rparr>"

definition text_ledger :: progress_data where
  "text_ledger = \<lparr>sent_emails = Some (Sized [''a'', ''b'', ''c'']), campaign_stats = None\<rparr>"

section \<open>Properties\<close>

subsection \<open>Evaluating strings\<close>

lemma char_of_numeral_eval:
  "char_of (numeral k :: nat) =
     Char (odd (numeral k :: nat)) (odd (drop_bit 1 (numeral k :: nat)))
       (odd (drop_bit 2 (numeral k :: nat))) (odd (drop_bit 3 (numeral k :: nat)))
       (odd (drop_bit 4 (numeral k :: nat))) (odd (drop_bit 5 (numeral k :: nat)))
       (odd (drop_bit 6 (numeral k :: nat))) (odd (drop_bit 7 (numeral k :: nat)))"
  by (simp add: char_of_def bit_iff_odd_drop_bit)

lemmas string_eval = lower_def lower_char_def is_upper_def char_of_numeral_eval drop_bit_eq_div
  strip_def is_space_def

lemma lower_char_idem: "lower_char (lower_char c) = lower_char c"
  by (auto simp: lower_char_def is_upper_def Let_def)

lemma lower_idem: "lower (lower s) = lower s"
  by (simp add: lower_def lower_char_idem)

lemma lower_Nil_iff: "lower s = [] \<longleftrightarrow> s = []"
  by (simp add: lower_def)

subsection \<open>The counters of the ledger\<close>

lemma counted_once: "bool_success it \<Longrightarrow> item_successful it \<noteq> item_failed it"
  by (auto simp: bool_success_def dict_get_def split: item.splits option.splits jval.splits)

lemma successful_plus_failed:
  "\<forall>it\<in>set xs. bool_success it \<Longrightarrow>
     length (filter item_successful xs) + length (filter item_failed xs) = length xs"
proof (induction xs)
  case Nil
  then show ?case by simp
next
  case (Cons it xs)
  then have "item_successful it \<noteq> item_failed it" by (simp add: counted_once)
  with Cons show ?case by auto
qed

text \<open>
  On a well-formed ledger \<open>mark_email_sent\<close> does not raise, leaves a well-formed ledger,
  appends its record exactly when no recorded address is the given string itself, and
  sets the three counters from the records.
\<close>

lemma mark_email_sent_well_formed:
  assumes "well_formed pd"
  shows "fst (mark_email_sent email succ err now pd) = None"
    and "well_formed (snd (mark_email_sent email succ err now pd))"
    and "attempts (snd (mark_email_sent email succ err now pd))
           = (if JStr email \<in> item_email ` set (attempts pd) then attempts pd
              else attempts pd @ [Dict [''email'' \<mapsto> JStr email, ''timestamp'' \<mapsto> JStr now,
                                         ''success'' \<mapsto> JBool succ, ''error'' \<mapsto> JStr err]])"
    and "stats_get (snd (mark_email_sent email succ err now pd)) ''total_sent''
           = Inr (JInt (int (length (attempts (snd (mark_email_sent email succ err now pd))))))"
    and "stats_get (snd (mark_email_sent email succ err now pd)) ''successful''
           = Inr (JInt (int (length (filter item_successful
                   (attempts (snd (mark_email_sent email succ err now pd)))))))"
    and "stats_get (snd (mark_email_sent email succ err now pd)) ''failed''
           = Inr (JInt (int (length (filter item_failed
                   (attempts (snd (mark_email_sent email succ err now pd)))))))"
proof -
  from assms have s: "is_entries (sent_emails pd)" and c: "is_stats (campaign_stats pd)"
    by (simp_all add: well_formed_def)
  show "fst (mark_email_sent email succ err now pd) = None"
    using s c
    by (cases "sent_emails pd" rule: is_entries.cases; cases "campaign_stats pd" rule: is_stats.cases)
       (simp_all add: mark_email_sent_def attempts_def Let_def)
  show "well_formed (snd (mark_email_sent email succ err now pd))"
    using s c
    by (cases "sent_emails pd" rule: is_entries.cases; cases "campaign_stats pd" rule: is_stats.cases)
       (simp_all add: mark_email_sent_def attempts_def Let_def well_formed_def)
  show "attempts (snd (mark_email_sent email succ err now pd))
           = (if JStr email \<in> item_email ` set (attempts pd) then attempts pd
              else attempts pd @ [Dict [''email'' \<mapsto> JStr email, ''timestamp'' \<mapsto> JStr now,
                                         ''success'' \<mapsto> JBool succ, ''error'' \<mapsto> JStr err]])"
    using s c
    by (cases "sent_emails pd" rule: is_entries.cases; cases "campaign_stats pd" rule: is_stats.cases)
       (simp_all add: mark_email_sent_def attempts_def Let_def)
  show "stats_get (snd (mark_email_sent email succ err now pd)) ''total_sent''
           = Inr (JInt (int (length (attempts (snd (mark_email_sent email succ err now pd))))))"
    using s c
    by (cases "sent_emails pd" rule: is_entries.cases; cases "campaign_stats pd" rule: is_stats.cases)
       (simp_all add: mark_email_sent_def attempts_def Let_def stats_get_def dict_get_def)
  show "stats_get (snd (mark_email_sent email succ err now pd)) ''successful''
           = Inr (JInt (int (length (filter item_successful
                   (attempts (snd (mark_email_sent email succ err now pd)))))))"
    using s c
    by (cases "sent_emails pd" rule: is_entries.cases; cases "campaign_stats pd" rule: is_stats.cases)
       (simp_all add: mark_email_sent_def attempts_def Let_def stats_get_def dict_get_def)
  show "stats_get (snd (mark_email_sent email succ err now pd)) ''failed''
           = Inr (JInt (int (length (filter item_failed
                   (attempts (snd (mark_email_sent email succ err now pd)))))))"
    using s c
    by (cases "sent_emails pd" rule: is_entries.cases; cases "campaign_stats pd" rule: is_stats.cases)
       (simp_all add: mark_email_sent_def attempts_def Let_def stats_get_def dict_get_def)
qed

lemma mark_keeps_bool_success:
  assumes "well_formed pd" "\<forall>it\<in>set (attempts pd). bool_success it"
  shows "\<forall>it\<in>set (attempts (snd (mark_email_sent email succ err now pd))). bool_success it"
  using assms(2) by (auto simp: mark_email_sent_well_formed(3) [OF assms(1)] bool_success_def)

lemma mark_counters:
  assumes "well_formed pd" "\<forall>it\<in>set (attempts pd). bool_success it"
  shows "counters_agree (snd (mark_email_sent email succ err now pd))"
proof -
  let ?pd = "snd (mark_email_sent email succ err now pd)"
  have b: "\<forall>it\<in>set (attempts ?pd). bool_success it"
    using assms by (rule mark_keeps_bool_success)
  note t = mark_email_sent_well_formed(4) [OF assms(1), of email succ err now]
  note s = mark_email_sent_well_formed(5) [OF assms(1), of email succ err now]
  note f = mark_email_sent_well_formed(6) [OF assms(1), of email succ err now]
  from successful_plus_failed [OF b]
  have "int (length (filter item_successful (attempts ?pd)))
          + int (length (filter item_failed (attempts ?pd)))
        = int (length (attempts ?pd))" by linarith
  with t s f show ?thesis unfolding counters_agree_def by blast
qed

lemma mark_all_counters:
  "well_formed pd \<Longrightarrow> \<forall>it\<in>set (attempts pd). bool_success it \<Longrightarrow> counters_agree pd \<Longrightarrow>
     fst (mark_all calls pd) = None
     \<and> well_formed (snd (mark_all calls pd))
     \<and> counters_agree (snd (mark_all calls pd))
     \<and> (\<forall>it\<in>set (attempts (snd (mark_all calls pd))). bool_success it)"
proof (induction calls arbitrary: pd)
  case Nil
  then show ?case by simp
next
  case (Cons c calls)
  obtain email succ err now where c: "c = (email, succ, err, now)" by (cases c) auto
  let ?m = "mark_email_sent email succ err now pd"
  have n: "fst ?m = None" using Cons.prems(1) by (rule mark_email_sent_well_formed(1))
  have w: "well_formed (snd ?m)" using Cons.prems(1) by (rule mark_email_sent_well_formed(2))
  have b: "\<forall>it\<in>set (attempts (snd ?m)). bool_success it"
    using Cons.prems(1,2) by (rule mark_keeps_bool_success)
  have a: "counters_agree (snd ?m)" using Cons.prems(1,2) by (rule mark_counters)
  have "mark_all (c # calls) pd = mark_all calls (snd ?m)"
    using n by (cases ?m) (simp add: c)
  with Cons.IH [OF w b a] show ?case by simp
qed

lemma fresh_well_formed: "well_formed fresh_progress"
  by (simp add: well_formed_def fresh_progress_def)

lemma fresh_counters: "counters_agree fresh_progress"
  by (simp add: counters_agree_def fresh_progress_def stats_get_def dict_get_def attempts_def)

text \<open>
  C3. Whatever sequence of \<open>mark_email_sent\<close> calls is made on the fresh ledger, no call
  raises, the counter \<open>total_sent\<close> of the resulting ledger is the number of its attempt
  records, and the counters \<open>successful\<close> and \<open>failed\<close> add up to it. The counters are
  read as \<open>get_campaign_stats\<close> reads them, a missing one as 0 (the fresh ledger itself
  has neither \<open>successful\<close> nor \<open>failed\<close>).
\<close>

theorem mark_email_sent_counters:
  "fst (mark_all calls fresh_progress) = None
   \<and> stats_get (snd (mark_all calls fresh_progress)) ''total_sent''
       = Inr (JInt (int (length (attempts (snd (mark_all calls fresh_progress))))))
   \<and> (\<exists>s f. stats_get (snd (mark_all calls fresh_progress)) ''successful'' = Inr (JInt s)
           \<and> stats_get (snd (mark_all calls fresh_progress)) ''failed'' = Inr (JInt f)
           \<and> s + f = int (length (attempts (snd (mark_all calls fresh_progress)))))"
proof -
  have "\<forall>it\<in>set (attempts fresh_progress). bool_success it"
    by (simp add: fresh_progress_def attempts_def)
  from mark_all_counters [OF fresh_well_formed this fresh_counters, of calls]
  show ?thesis by (simp add: counters_agree_def)
qed

subsection \<open>Recording an attempt twice\<close>

text \<open>
  On a well-formed ledger \<open>mark_email_sent\<close> appends a record exactly when no recorded
  address is the given string itself; a second call for the same string changes no
  record, so an address that was not recorded before has exactly one record after two
  calls.
\<close>

lemma mark_email_sent_appends_iff:
  "well_formed pd \<Longrightarrow>
   length (attempts (snd (mark_email_sent email succ err now pd))) = Suc (length (attempts pd))
     \<longleftrightarrow> JStr email \<notin> item_email ` set (attempts pd)"
  by (simp add: mark_email_sent_well_formed(3))

lemma mark_email_sent_twice:
  assumes "well_formed pd"
  shows "attempts (snd (mark_email_sent email succ' err' now'
             (snd (mark_email_sent email succ err now pd))))
     = attempts (snd (mark_email_sent email succ err now pd))"
proof -
  have w: "well_formed (snd (mark_email_sent email succ err now pd))"
    using assms by (rule mark_email_sent_well_formed(2))
  show ?thesis
    unfolding mark_email_sent_well_formed(3) [OF w]
    by (simp add: mark_email_sent_well_formed(3) [OF assms] dict_get_def)
qed

lemma mark_email_sent_one_record:
  assumes "well_formed pd" "JStr email \<notin> item_email ` set (attempts pd)"
  shows "length (filter (\<lambda>it. item_email it = JStr email)
     (attempts (snd (mark_email_sent email succ' err' now'
        (snd (mark_email_sent email succ err now pd)))))) = 1"
proof -
  from assms(2) have "filter (\<lambda>it. item_email it = JStr email) (attempts pd) = []"
    by (force simp: filter_empty_conv)
  with assms(2) show ?thesis
    unfolding mark_email_sent_twice [OF assms(1)]
    by (simp add: mark_email_sent_well_formed(3) [OF assms(1)] dict_get_def)
qed

text \<open>
  C2. \<open>mark_email_sent\<close> compares the address with the recorded ones as they are
  written: after \<open>a@x.com\<close> has been recorded, a call for \<open>A@X.com\<close> appends a second
  record, so the ledger holds two records for one address under case-insensitive
  comparison.
\<close>

theorem mark_email_sent_case_sensitive:
  "map item_email (attempts (snd (mark_email_sent ''A@X.com'' False ''bounced'' ''t2''
       (snd (mark_email_sent ''a@x.com'' True [] ''t1'' fresh_progress)))))
     = [JStr ''a@x.com'', JStr ''A@X.com'']"
  by (simp add: mark_email_sent_def fresh_progress_def attempts_def Let_def dict_get_def)

subsection \<open>Loading the ledger\<close>

text \<open>
  C8, amended. \<open>load_progress\<close> returns a ledger for every outcome of reading the
  progress file and never raises. When there is no file, when reading or parsing raises,
  and when the document is not an object or its \<open>sent_emails\<close> has no length, it returns
  the fresh empty ledger (no attempt records, \<open>total_sent\<close> 0), which is well formed.
  Every other parsed document it returns as it is: a well-formed ledger when the document
  is one. The claim as stated fails for a document that parses and is not well formed: it
  is returned unchanged.
\<close>

theorem load_progress_never_fatal:
  "load_progress NoFile = fresh_progress
   \<and> load_progress (ReadRaises e) = fresh_progress
   \<and> load_progress (Loaded NotALedger) = fresh_progress
   \<and> load_progress (Loaded (Ledger pd)) = pd
   \<and> (case load_progress_try r of
        Inl ex \<Rightarrow> load_progress r = fresh_progress
      | Inr ledger \<Rightarrow> load_progress r = ledger)
   \<and> ((\<forall>doc. r \<noteq> Loaded (Ledger doc)) \<longrightarrow> load_progress r = fresh_progress)
   \<and> (well_formed pd \<longrightarrow> well_formed (load_progress (Loaded (Ledger pd))))
   \<and> attempts fresh_progress = []
   \<and> stats_get fresh_progress ''total_sent'' = Inr (JInt 0)
   \<and> well_formed fresh_progress"
proof -
  have "(\<forall>doc. r \<noteq> Loaded (Ledger doc)) \<longrightarrow> load_progress r = fresh_progress"
    by (cases r rule: load_progress_try.cases) (simp_all add: load_progress_def)
  then show ?thesis
    by (simp add: load_progress_def fresh_progress_def attempts_def stats_get_def dict_get_def
          well_formed_def split: sum.splits)
qed

theorem load_progress_never_fatal_witness:
  "load_progress NoFile = fresh_progress
   \<and> well_formed fresh_progress
   \<and> well_formed (load_progress (Loaded (Ledger fresh_progress)))"
  using load_progress_never_fatal [of "Exn OtherException []" fresh_progress NoFile] by simp

theorem load_progress_corrupt_counterexample:
  "load_progress (Loaded (Ledger null_stats_ledger)) = null_stats_ledger
   \<and> null_stats_ledger \<noteq> fresh_progress
   \<and> \<not> well_formed null_stats_ledger
   \<and> fst (mark_email_sent ''a@x.com'' True [] ''t1'' null_stats_ledger)
       = Some (Exn TypeError ''object does not support item assignment'')
   \<and> load_progress (Loaded (Ledger text_ledger)) = text_ledger
   \<and> text_ledger \<noteq> fresh_progress
   \<and> \<not> well_formed text_ledger
   \<and> fst (mark_email_sent ''a@x.com'' True [] ''t1'' text_ledger)
       = Some (Exn AttributeError ''object has no attribute append'')"
  by (simp add: load_progress_def null_stats_ledger_def text_ledger_def fresh_progress_def
        well_formed_def mark_email_sent_def attempts_def Let_def)

subsection \<open>The address pattern\<close>

lemma local_char_not_at: "local_char c \<Longrightarrow> c \<noteq> CHR ''@''"
  by (auto simp: local_char_def is_alpha_def is_digit_def)

lemma is_alpha_not_dot: "is_alpha c \<Longrightarrow> c \<noteq> CHR ''.''"
  by (auto simp: is_alpha_def)

lemma is_alpha_not_lf: "is_alpha c \<Longrightarrow> c \<noteq> CHR 0x0A"
  by (auto simp: is_alpha_def)

lemma takeWhile_stop:
  "\<forall>x\<in>set xs. P x \<Longrightarrow> \<not> P y \<Longrightarrow> takeWhile P (xs @ y # ys) = xs"
  by (induction xs) auto

lemma takeWhile_shorter:
  "length (takeWhile P xs) < length xs \<Longrightarrow>
     \<exists>y ys. xs = takeWhile P xs @ y # ys \<and> \<not> P y"
  by (induction xs) auto

lemma full_match_if_pattern:
  assumes "matches_pattern t"
  shows "full_match t"
proof -
  from assms obtain l d tl where t: "t = l @ CHR ''@'' # d @ CHR ''.'' # tl"
    and l: "l \<noteq> []" "list_all local_char l" and d: "d \<noteq> []" "list_all domain_char d"
    and tl: "2 \<le> length tl" "list_all is_alpha tl"
    unfolding matches_pattern_def by blast
  have lp: "takeWhile (\<lambda>c. c \<noteq> CHR ''@'') t = l"
    unfolding t using l(2) by (intro takeWhile_stop) (auto simp: list_all_iff local_char_not_at)
  have rest: "drop (Suc (length l)) t = d @ CHR ''.'' # tl" by (simp add: t)
  have "takeWhile (\<lambda>c. c \<noteq> CHR ''.'') (rev tl @ CHR ''.'' # rev d) = rev tl"
    using tl(2) by (intro takeWhile_stop) (auto simp: list_all_iff is_alpha_not_dot)
  then have tld: "rev (takeWhile (\<lambda>c. c \<noteq> CHR ''.'') (rev (d @ CHR ''.'' # tl))) = tl"
    by simp
  show ?thesis
    unfolding full_match_def Let_def lp rest tld
    using l d tl by (simp add: t)
qed

lemma pattern_if_full_match:
  assumes "full_match t"
  shows "matches_pattern t"
proof -
  define l where "l = takeWhile (\<lambda>c. c \<noteq> CHR ''@'') t"
  define rest where "rest = drop (Suc (length l)) t"
  define rtl where "rtl = takeWhile (\<lambda>c. c \<noteq> CHR ''.'') (rev rest)"
  define d where "d = take (length rest - Suc (length (rev rtl))) rest"
  from assms have a: "length l < length t" "l \<noteq> []" "list_all local_char l"
    "length (rev rtl) < length rest" "d \<noteq> []" "list_all domain_char d"
    "2 \<le> length (rev rtl)" "list_all is_alpha (rev rtl)"
    unfolding full_match_def Let_def d_def rtl_def rest_def l_def by blast+
  from a(1) have "\<exists>y ys. t = l @ y # ys \<and> \<not> y \<noteq> CHR ''@''"
    unfolding l_def by (rule takeWhile_shorter)
  then obtain ys where t: "t = l @ CHR ''@'' # ys" by auto
  have rest: "rest = ys" unfolding rest_def by (subst t) simp
  from a(4) have "length rtl < length (rev rest)" by simp
  then have "\<exists>z zs. rev rest = rtl @ z # zs \<and> \<not> z \<noteq> CHR ''.''"
    unfolding rtl_def by (rule takeWhile_shorter)
  then obtain zs where r: "rev rest = rtl @ CHR ''.'' # zs" by auto
  have "rev (rev rest) = rev (rtl @ CHR ''.'' # zs)" by (simp only: r)
  then have rr: "rest = rev zs @ CHR ''.'' # rev rtl" by simp
  have dd: "d = rev zs" unfolding d_def by (simp add: rr)
  have "t = l @ CHR ''@'' # rev zs @ CHR ''.'' # rev rtl"
    using t rest rr by simp
  moreover have "rev zs \<noteq> []" "list_all domain_char (rev zs)" using a(5,6) dd by simp_all
  ultimately show ?thesis
    unfolding matches_pattern_def using a(2,3,7,8) by blast
qed

lemma validate_email_pattern:
  "validate_email email \<longleftrightarrow>
     matches_pattern email \<or> (\<exists>t. email = t @ [CHR 0x0A] \<and> matches_pattern t)"
proof -
  have v: "validate_email email
            = full_match (if email \<noteq> [] \<and> last email = CHR 0x0A then butlast email else email)"
    by (simp add: validate_email_def)
  have sm: "\<And>t. full_match t = matches_pattern t"
    using full_match_if_pattern pattern_if_full_match by blast
  have no_lf: "\<And>t. matches_pattern t \<Longrightarrow> \<not> (t \<noteq> [] \<and> last t = CHR 0x0A)"
  proof -
    fix t assume "matches_pattern t"
    then obtain l d tl where t: "t = l @ CHR ''@'' # d @ CHR ''.'' # tl"
      and tl: "2 \<le> length tl" "list_all is_alpha tl"
      unfolding matches_pattern_def by blast
    from tl(1) have ne: "tl \<noteq> []" by auto
    then have "last t = last tl" by (simp add: t)
    moreover from ne tl(2) have "is_alpha (last tl)" by (simp add: list_all_iff)
    ultimately show "\<not> (t \<noteq> [] \<and> last t = CHR 0x0A)" using is_alpha_not_lf by auto
  qed
  show ?thesis
  proof (cases "email \<noteq> [] \<and> last email = CHR 0x0A")
    case True
    then have e: "butlast email @ [CHR 0x0A] = email"
      using append_butlast_last_id [of email] by simp
    from True have n: "\<not> matches_pattern email" using no_lf by blast
    have "(\<exists>t. email = t @ [CHR 0x0A] \<and> matches_pattern t) = matches_pattern (butlast email)"
    proof
      assume "\<exists>t. email = t @ [CHR 0x0A] \<and> matches_pattern t"
      then obtain t where "email = t @ [CHR 0x0A]" "matches_pattern t" by blast
      then show "matches_pattern (butlast email)" by simp
    next
      assume "matches_pattern (butlast email)"
      with e show "\<exists>t. email = t @ [CHR 0x0A] \<and> matches_pattern t" by metis
    qed
    with n True show ?thesis by (simp add: v sm)
  next
    case False
    then have "\<not> (\<exists>t. email = t @ [CHR 0x0A] \<and> matches_pattern t)" by auto
    with False show ?thesis by (auto simp: v sm)
  qed
qed

subsection \<open>Sending one message\<close>

lemmas validate_eval = validate_email_def full_match_def local_char_def domain_char_def is_alpha_def is_digit_def

lemma send_email_try_rejected:
  assumes "locally_rejected from_email to_emails subject plain html"
  shows "\<exists>ex. send_email_try sg_send from_email to_emails subject plain html from_name = (Inl ex, [])"
proof (cases "find (\<lambda>email. \<not> validate_email email) to_emails")
  case None
  with assms show ?thesis unfolding locally_rejected_def send_email_try_def by auto
next
  case (Some bad)
  then show ?thesis unfolding send_email_try_def by simp
qed

lemma send_email_try_sent:
  assumes "\<not> locally_rejected from_email to_emails subject plain html"
  shows "send_email_try sg_send from_email to_emails subject plain html from_name
     = ((case sg_send (build_message from_email to_emails subject plain html from_name) of
           Inl ex \<Rightarrow> Inl ex
         | Inr resp \<Rightarrow> Inr \<lparr>success = (resp_status resp \<in> {200, 201, 202}),
                            status_code = Some (resp_status resp), error = None\<rparr>),
        [build_message from_email to_emails subject plain html from_name])"
proof -
  from assms have a: "validate_email from_email" "to_emails \<noteq> []"
    "find (\<lambda>email. \<not> validate_email email) to_emails = None" "strip subject \<noteq> []"
    "\<not> (plain = [] \<and> html = [])"
    unfolding locally_rejected_def by blast+
  show ?thesis
    unfolding send_email_try_def Let_def
    using a
    by (cases "sg_send (build_message from_email to_emails subject plain html from_name)")
       simp_all
qed

text \<open>
  C9. When the sender address does not validate, or there is no recipient, or a recipient
  address does not validate, or the subject is empty once stripped, \<open>send_email\<close>
  returns a result whose \<open>success\<close> is false and hands no message to the gateway.
\<close>

theorem send_email_validates_first:
  assumes "\<not> validate_email from_email \<or> to_emails = []
           \<or> (\<exists>t\<in>set to_emails. \<not> validate_email t) \<or> strip subject = []"
  shows "\<not> success (fst (send_email sg_send from_email to_emails subject plain html from_name))
         \<and> snd (send_email sg_send from_email to_emails subject plain html from_name) = []"
proof -
  from assms have "locally_rejected from_email to_emails subject plain html"
    unfolding locally_rejected_def by (auto simp: find_None_iff)
  from send_email_try_rejected [OF this, of sg_send from_name]
  show ?thesis by (auto simp: send_email_def)
qed

theorem send_email_validates_first_witness:
  "\<not> validate_email ''nobody''
   \<and> \<not> success (fst (send_email gateway_accepts ''nobody'' [''a@x.com''] ''Hello'' ''text'' [] []))
   \<and> snd (send_email gateway_accepts ''nobody'' [''a@x.com''] ''Hello'' ''text'' [] []) = []"
proof -
  have h: "\<not> validate_email ''nobody''" by (simp add: validate_eval)
  then have "\<not> validate_email ''nobody'' \<or> [''a@x.com''] = []
           \<or> (\<exists>t\<in>set [''a@x.com'']. \<not> validate_email t) \<or> strip ''Hello'' = []" by blast
  from send_email_validates_first [OF this, of gateway_accepts "''text''" "[]" "[]"] h
  show ?thesis by blast
qed

text \<open>
  C10. \<open>send_email\<close> always returns a result. Its \<open>success\<close> is true exactly when a
  message was handed to the gateway and the answer had status 200, 201 or 202. Every
  exception raised in its body, a gateway exception included, is returned as a result
  whose \<open>success\<close> is false and whose \<open>error\<close> is the text of the exception.
\<close>

theorem send_email_outcome:
  "(success (fst (send_email sg_send from_email to_emails subject plain html from_name))
      \<longleftrightarrow> (\<exists>m resp. snd (send_email sg_send from_email to_emails subject plain html from_name) = [m]
                     \<and> sg_send m = Inr resp \<and> resp_status resp \<in> {200, 201, 202}))
   \<and> (\<forall>ex calls. send_email_try sg_send from_email to_emails subject plain html from_name = (Inl ex, calls)
         \<longrightarrow> send_email sg_send from_email to_emails subject plain html from_name
              = (\<lparr>success = False, status_code = None, error = Some (exn_msg ex)\<rparr>, calls))
   \<and> (\<forall>m ex. snd (send_email sg_send from_email to_emails subject plain html from_name) = [m]
         \<and> sg_send m = Inl ex
         \<longrightarrow> fst (send_email sg_send from_email to_emails subject plain html from_name)
              = \<lparr>success = False, status_code = None, error = Some (exn_msg ex)\<rparr>)"
proof (cases "locally_rejected from_email to_emails subject plain html")
  case True
  from send_email_try_rejected [OF this, of sg_send from_name]
  show ?thesis by (auto simp: send_email_def)
next
  case False
  show ?thesis
    unfolding send_email_def send_email_try_sent [OF False]
    by (cases "sg_send (build_message from_email to_emails subject plain html from_name)") simp_all
qed

theorem send_email_outcome_witness:
  "fst (send_email gateway_times_out ''me@x.com'' [''a@x.com''] ''Hello'' ''text'' [] [])
     = \<lparr>success = False, status_code = None, error = Some ''timed out''\<rparr>
   \<and> success (fst (send_email gateway_accepts ''me@x.com'' [''a@x.com''] ''Hello'' ''text'' [] []))"
proof -
  have v: "validate_email ''me@x.com''" "validate_email ''a@x.com''" by (simp_all add: validate_eval)
  have s: "strip ''Hello'' \<noteq> []" by (simp add: strip_def is_space_def)
  have r: "\<not> locally_rejected ''me@x.com'' [''a@x.com''] ''Hello'' ''text'' []"
    using v s by (simp add: locally_rejected_def)
  have c: "snd (send_email gateway_times_out ''me@x.com'' [''a@x.com''] ''Hello'' ''text'' [] [])
            = [build_message ''me@x.com'' [''a@x.com''] ''Hello'' ''text'' [] []]"
    unfolding send_email_def send_email_try_sent [OF r] by (simp add: gateway_times_out_def)
  have a: "snd (send_email gateway_accepts ''me@x.com'' [''a@x.com''] ''Hello'' ''text'' [] [])
            = [build_message ''me@x.com'' [''a@x.com''] ''Hello'' ''text'' [] []]"
    unfolding send_email_def send_email_try_sent [OF r] by (simp add: gateway_accepts_def)
  from send_email_outcome [of gateway_times_out "''me@x.com''" "[''a@x.com'']" "''Hello''"
      "''text''" "[]" "[]"] c
  have 1: "fst (send_email gateway_times_out ''me@x.com'' [''a@x.com''] ''Hello'' ''text'' [] [])
     = \<lparr>success = False, status_code = None, error = Some ''timed out''\<rparr>"
    by (simp add: gateway_times_out_def)
  from send_email_outcome [of gateway_accepts "''me@x.com''" "[''a@x.com'']" "''Hello''"
      "''text''" "[]" "[]"] a
  have 2: "success (fst (send_email gateway_accepts ''me@x.com'' [''a@x.com''] ''Hello'' ''text'' [] []))"
    by (simp add: gateway_accepts_def)
  from 1 2 show ?thesis by simp
qed

subsection \<open>Keeping first occurrences\<close>

lemma fromkeys_foldl:
  "foldl (\<lambda>keys x. if x \<in> set keys then keys else keys @ [x]) acc xs
     = acc @ first_seen (filter (\<lambda>y. y \<notin> set acc) xs)"
proof (induction xs arbitrary: acc)
  case Nil
  then show ?case by simp
next
  case (Cons x xs)
  show ?case
  proof (cases "x \<in> set acc")
    case True
    then show ?thesis by (simp add: Cons.IH)
  next
    case False
    have "filter (\<lambda>y. y \<notin> set (acc @ [x])) xs = filter (\<lambda>y. y \<noteq> x) (filter (\<lambda>y. y \<notin> set acc) xs)"
      by (induction xs) auto
    with False show ?thesis by (simp add: Cons.IH)
  qed
qed

lemma dict_fromkeys_first_seen: "dict_fromkeys xs = first_seen xs"
  by (simp add: dict_fromkeys_def fromkeys_foldl)

lemma set_first_seen: "set (first_seen xs) = set xs"
  by (induction xs rule: first_seen.induct) auto

lemma distinct_first_seen: "distinct (first_seen xs)"
  by (induction xs rule: first_seen.induct) (auto simp: set_first_seen)

lemma first_seen_append:
  "first_seen (xs @ ys) = first_seen xs @ first_seen (filter (\<lambda>y. y \<notin> set xs) ys)"
proof -
  have "dict_fromkeys (xs @ ys)
        = foldl (\<lambda>keys x. if x \<in> set keys then keys else keys @ [x]) (dict_fromkeys xs) ys"
    by (simp add: dict_fromkeys_def)
  then show ?thesis
    by (simp add: fromkeys_foldl dict_fromkeys_first_seen set_first_seen)
qed

lemma first_seen_repeat: "set ys \<subseteq> set xs \<Longrightarrow> first_seen (xs @ ys) = first_seen xs"
proof -
  assume "set ys \<subseteq> set xs"
  then have "filter (\<lambda>y. y \<notin> set xs) ys = []" by (auto simp: filter_empty_conv)
  then show ?thesis by (simp add: first_seen_append)
qed

lemma count_list_distinct: "distinct xs \<Longrightarrow> x \<in> set xs \<Longrightarrow> count_list xs x = 1"
  by (induction xs) (auto simp: count_list_0_iff)

subsection \<open>What is read from the CSV file\<close>

lemma read_rows_normal:
  "\<forall>e\<in>set emails. normal_address e \<Longrightarrow>
     \<forall>e\<in>set (snd (read_rows col rs ending emails)). normal_address e"
proof (induction rs arbitrary: emails)
  case Nil
  then show ?case by simp
next
  case (Cons r rs)
  show ?case
  proof (cases "case r col of None \<Rightarrow> Some [] | Some cell \<Rightarrow> cell")
    case None
    with Cons.prems show ?thesis by simp
  next
    case (Some cell)
    have "\<forall>e\<in>set (if accepted (strip cell) then emails @ [lower (strip cell)] else emails).
            normal_address e"
      using Cons.prems by (auto simp: normal_address_def accepted_def lower_idem lower_Nil_iff)
    from Cons.IH [OF this] Some show ?thesis by (simp add: Let_def)
  qed
qed

lemma try_encoding_normal:
  "\<forall>e\<in>set emails. normal_address e \<Longrightarrow> \<forall>e\<in>set (try_encoding r emails). normal_address e"
  by (cases r) (auto simp: read_rows_normal split: option.splits)

lemma foldl_encodings_normal:
  "\<forall>e\<in>set emails. normal_address e \<Longrightarrow>
   \<forall>e\<in>set (foldl (\<lambda>emails encoding. try_encoding (f encoding) emails) emails encs). normal_address e"
proof (induction encs arbitrary: emails)
  case Nil
  then show ?case by simp
next
  case (Cons enc encs)
  from Cons.prems have "\<forall>e\<in>set (try_encoding (f enc) emails). normal_address e"
    by (rule try_encoding_normal)
  from Cons.IH [OF this] show ?case by simp
qed

lemma raw_emails_normal: "\<forall>e\<in>set (raw_emails src). normal_address e"
  unfolding raw_emails_def by (rule foldl_encodings_normal) simp

lemma load_email_list_first_seen:
  "csv_exists src \<Longrightarrow> load_email_list src = first_seen (raw_emails src)"
  by (simp add: load_email_list_def Let_def dict_fromkeys_first_seen)

lemma load_email_list_subset: "set (load_email_list src) \<subseteq> set (raw_emails src)"
  by (simp add: load_email_list_def Let_def dict_fromkeys_first_seen set_first_seen)

lemma distinct_load_email_list: "distinct (load_email_list src)"
  by (simp add: load_email_list_def Let_def dict_fromkeys_first_seen distinct_first_seen)

lemma load_email_list_normal: "e \<in> set (load_email_list src) \<Longrightarrow> normal_address e"
  using load_email_list_subset raw_emails_normal by blast

lemma read_rows_email_rows:
  "read_rows ''email'' (map email_row cells) ending emails
     = (ending, emails @ map lower (filter accepted (map strip cells)))"
  by (induction cells arbitrary: emails) (simp_all add: email_row_def Let_def)

lemma find_email_column_email: "find_email_column [''email''] = Some ''email''"
  by (simp add: find_email_column_def string_eval)

lemma try_encoding_email_rows:
  "try_encoding (CsvRead [''email''] (map email_row cells) ending) emails
     = emails @ map lower (filter accepted (map strip cells))"
  by (simp add: find_email_column_email read_rows_email_rows)

lemma raw_emails_same_under_all:
  "raw_emails (same_under_all (CsvRead [''email''] (map email_row cells) ending))
     = (let xs = map lower (filter accepted (map strip cells)) in xs @ xs @ xs @ xs)"
  by (simp add: raw_emails_def same_under_all_def encodings_to_try_def try_encoding_email_rows
        Let_def del: try_encoding.simps)

lemma load_same_under_all:
  "load_email_list (same_under_all (CsvRead [''email''] (map email_row cells) ending))
     = first_seen (map lower (filter accepted (map strip cells)))"
proof -
  let ?xs = "map lower (filter accepted (map strip cells))"
  have "first_seen (?xs @ (?xs @ ?xs @ ?xs)) = first_seen ?xs"
    by (rule first_seen_repeat) auto
  moreover have "csv_exists (same_under_all (CsvRead [''email''] (map email_row cells) ending))"
    by (simp add: same_under_all_def)
  ultimately show ?thesis
    by (simp add: load_email_list_first_seen raw_emails_same_under_all Let_def)
qed

lemma accepted_eval: "accepted ''a@x.com''" "accepted ''A@X.com''" "accepted ''b@x.com''"
  by (simp_all add: accepted_def split_len_def)

text \<open>
  The column is found whatever the case and the white space around its name, and the
  cells are stripped: the header \<open>Name\<close>, \<open>EMAIL\<close> followed by a blank, with the one
  row \<open>Bob\<close>, \<open>bob@y.org\<close> between blanks, gives \<open>bob@y.org\<close>.
\<close>

lemma load_email_list_header_scenario:
  "load_email_list (same_under_all (CsvRead [''Name'', ''EMAIL '']
       [[''Name'' \<mapsto> Some ''Bob'', ''EMAIL '' \<mapsto> Some '' bob@y.org '']] None))
     = [''bob@y.org'']"
  by (simp add: load_email_list_def raw_emails_def same_under_all_def encodings_to_try_def
        find_email_column_def accepted_def split_len_def dict_fromkeys_def
        string_eval Let_def)

text \<open>
  C5. The list \<open>load_email_list\<close> returns has no address twice, every address in it is
  in lower case, and it is the list of the addresses read with each kept at its first
  occurrence (so each address read is in it exactly once). Where the file reads the same
  rows under every encoding, that is the cells accepted, lower-cased, each at its first
  occurrence: the rows a@x.com, A@X.com, b@x.com give a@x.com, b@x.com.
\<close>

theorem load_email_list_dedup:
  "distinct (load_email_list src)
   \<and> (\<forall>e\<in>set (load_email_list src). lower e = e)
   \<and> (csv_exists src \<longrightarrow> load_email_list src = first_seen (raw_emails src)
         \<and> (\<forall>e\<in>set (raw_emails src). count_list (load_email_list src) e = 1))
   \<and> load_email_list (same_under_all (CsvRead [''email''] (map email_row cells) None))
       = first_seen (map lower (filter accepted (map strip cells)))
   \<and> load_email_list (same_under_all (CsvRead [''email'']
         [email_row ''a@x.com'', email_row ''A@X.com'', email_row ''b@x.com''] None))
       = [''a@x.com'', ''b@x.com'']"
proof -
  have 1: "distinct (load_email_list src)" by (rule distinct_load_email_list)
  have 2: "\<forall>e\<in>set (load_email_list src). lower e = e"
    using load_email_list_normal by (auto simp: normal_address_def)
  have 3: "csv_exists src \<longrightarrow> load_email_list src = first_seen (raw_emails src)
         \<and> (\<forall>e\<in>set (raw_emails src). count_list (load_email_list src) e = 1)"
  proof (intro impI conjI ballI)
    assume "csv_exists src"
    then show l: "load_email_list src = first_seen (raw_emails src)"
      by (rule load_email_list_first_seen)
    fix e assume "e \<in> set (raw_emails src)"
    then have "e \<in> set (load_email_list src)" by (simp add: l set_first_seen)
    with 1 show "count_list (load_email_list src) e = 1" by (rule count_list_distinct)
  qed
  have 4: "load_email_list (same_under_all (CsvRead [''email''] (map email_row cells) None))
       = first_seen (map lower (filter accepted (map strip cells)))"
    by (rule load_same_under_all)
  have "load_email_list (same_under_all (CsvRead [''email'']
         (map email_row [''a@x.com'', ''A@X.com'', ''b@x.com'']) None))
       = [''a@x.com'', ''b@x.com'']"
    unfolding load_same_under_all by (simp add: accepted_eval string_eval)
  then have 5: "load_email_list (same_under_all (CsvRead [''email'']
         [email_row ''a@x.com'', email_row ''A@X.com'', email_row ''b@x.com''] None))
       = [''a@x.com'', ''b@x.com'']" by simp
  from 1 2 3 4 5 show ?thesis by blast
qed

text \<open>
  C6. The loop over the encodings does not stop at the first encoding that reads the file:
  a UTF-8 file with the one address \<open>u-umlaut@x.com\<close> reads without an exception under
  \<open>utf-8\<close>, and the list returned still has a second address, the same bytes read under
  \<open>iso-8859-1\<close>.
\<close>

theorem load_email_list_reads_every_encoding:
  "load_email_list (utf8_file
       (CsvRead [''email''] [email_row (CHR 0xFC # ''@x.com'')] None)
       (CsvRead [''email''] [email_row (CHR 0xC3 # CHR 0xBC # ''@x.com'')] None))
     = [CHR 0xFC # ''@x.com'', CHR 0xE3 # CHR 0xBC # ''@x.com'']"
  by (simp add: load_email_list_def raw_emails_def utf8_file_def encodings_to_try_def
        find_email_column_email email_row_def accepted_def split_len_def dict_fromkeys_def
        string_eval Let_def)


theorem load_email_list_dedup_witness:
  "csv_exists (same_under_all (CsvRead [''email'']
       [email_row ''a@x.com'', email_row ''A@X.com'', email_row ''b@x.com''] None))
   \<and> ''a@x.com'' \<in> set (load_email_list (same_under_all (CsvRead [''email'']
       [email_row ''a@x.com'', email_row ''A@X.com'', email_row ''b@x.com''] None)))
   \<and> lower ''a@x.com'' = ''a@x.com''
   \<and> ''a@x.com'' \<in> set (raw_emails (same_under_all (CsvRead [''email'']
       [email_row ''a@x.com'', email_row ''A@X.com'', email_row ''b@x.com''] None)))
   \<and> count_list (load_email_list (same_under_all (CsvRead [''email'']
       [email_row ''a@x.com'', email_row ''A@X.com'', email_row ''b@x.com''] None))) ''a@x.com'' = 1"
proof -
  let ?src = "same_under_all (CsvRead [''email'']
       [email_row ''a@x.com'', email_row ''A@X.com'', email_row ''b@x.com''] None)"
  note t = load_email_list_dedup [of ?src "[]"]
  have e: "csv_exists ?src" by (simp add: same_under_all_def)
  from t have l: "load_email_list ?src = [''a@x.com'', ''b@x.com'']" by blast
  then have m: "''a@x.com'' \<in> set (load_email_list ?src)" by simp
  from t e have f: "load_email_list ?src = first_seen (raw_emails ?src)" by blast
  have "set (raw_emails ?src) = set (load_email_list ?src)"
    unfolding f by (simp add: set_first_seen)
  with m have r: "''a@x.com'' \<in> set (raw_emails ?src)" by simp
  from t m have lo: "lower ''a@x.com'' = ''a@x.com''" by blast
  from t e r have c: "count_list (load_email_list ?src) ''a@x.com'' = 1" by blast
  from e m lo r c show ?thesis by blast
qed

subsection \<open>The addresses already attempted\<close>

lemma sent_addresses_set:
  "sent_addresses its acc = Inr s \<Longrightarrow>
     set s = set acc \<union> {lower a | a. a \<noteq> [] \<and> JStr a \<in> item_email ` set its}"
proof (induction its arbitrary: acc)
  case Nil
  then show ?case by auto
next
  case (Cons it its)
  show ?case
  proof (cases "item_email it")
    case (JStr email)
    with Cons.prems
    have "sent_addresses its (if email \<noteq> [] then acc @ [lower email] else acc) = Inr s"
      by simp
    from Cons.IH [OF this] JStr show ?thesis by auto
  next
    case JNull
    with Cons.prems have "sent_addresses its acc = Inr s" by simp
    from Cons.IH [OF this] JNull show ?thesis by auto
  next
    case (JBool b)
    with Cons.prems have "sent_addresses its acc = Inr s" by (simp split: if_splits)
    from Cons.IH [OF this] JBool show ?thesis by auto
  next
    case (JInt n)
    with Cons.prems have "sent_addresses its acc = Inr s" by (simp split: if_splits)
    from Cons.IH [OF this] JInt show ?thesis by auto
  next
    case (JOther b)
    with Cons.prems have "sent_addresses its acc = Inr s" by (simp split: if_splits)
    from Cons.IH [OF this] JOther show ?thesis by auto
  qed
qed

lemma sent_addresses_strings:
  "\<forall>it\<in>set its. \<exists>a. item_email it = JStr a \<Longrightarrow> \<exists>s. sent_addresses its acc = Inr s"
  by (induction its arbitrary: acc) auto

subsection \<open>Drawing without replacement\<close>

lemma mset_take_out:
  assumes "j < length pool"
  shows "add_mset (pool ! j) (mset (butlast (pool[j := last pool]))) = mset pool"
proof -
  from assms have "pool \<noteq> []" by auto
  then obtain ys l where p: "pool = ys @ [l]" by (metis rev_exhaust)
  show ?thesis
  proof (cases "j < length ys")
    case True
    then have "butlast (pool[j := last pool]) = ys[j := l]" by (simp add: p list_update_append)
    moreover have "pool ! j = ys ! j" using True by (simp add: p nth_append)
    moreover have "add_mset (ys ! j) (mset (ys[j := l])) = add_mset l (mset ys)"
      using True by (simp add: mset_update)
    ultimately show ?thesis by (simp add: p)
  next
    case False
    with assms have "j = length ys" by (simp add: p)
    then show ?thesis by (simp add: p)
  qed
qed

lemma sample_pool_mset: "mset (sample_pool pool k rnd i) \<subseteq># mset pool"
proof (induction k arbitrary: pool i)
  case 0
  then show ?case by simp
next
  case (Suc k)
  show ?case
  proof (cases "pool = []")
    case True
    then show ?thesis by simp
  next
    case False
    let ?j = "rnd i mod length pool"
    let ?rest = "butlast (pool[?j := last pool])"
    from False have j: "?j < length pool" by simp
    have "mset (sample_pool ?rest k rnd (Suc i)) \<subseteq># mset ?rest" by (rule Suc.IH)
    then have "add_mset (pool ! ?j) (mset (sample_pool ?rest k rnd (Suc i)))
                 \<subseteq># add_mset (pool ! ?j) (mset ?rest)" by simp
    with mset_take_out [OF j] False show ?thesis by (simp add: Let_def)
  qed
qed

lemma length_sample_pool: "k \<le> length pool \<Longrightarrow> length (sample_pool pool k rnd i) = k"
proof (induction k arbitrary: pool i)
  case 0
  then show ?case by simp
next
  case (Suc k)
  then have "pool \<noteq> []" by auto
  moreover have "k \<le> length (butlast (pool[rnd i mod length pool := last pool]))"
    using Suc.prems by simp
  ultimately show ?case using Suc.IH by (simp add: Let_def)
qed

lemma distinct_count_le_1: "distinct xs \<longleftrightarrow> (\<forall>a. count (mset xs) a \<le> 1)"
proof (induction xs)
  case Nil
  then show ?case by simp
next
  case (Cons x xs)
  show ?case
  proof
    assume "distinct (x # xs)"
    with Cons show "\<forall>a. count (mset (x # xs)) a \<le> 1" by (auto simp: count_eq_zero_iff)
  next
    assume a: "\<forall>a. count (mset (x # xs)) a \<le> 1"
    then have "count (mset xs) x = 0" by (metis add_mset_add_single count_add_mset mset.simps(2) not_less_eq_eq One_nat_def le_zero_eq)
    then have "x \<notin> set xs" by (simp add: count_eq_zero_iff)
    moreover from a have "\<forall>a. count (mset xs) a \<le> 1"
      by (metis count_add_mset mset.simps(2) Suc_leD)
    ultimately show "distinct (x # xs)" using Cons by simp
  qed
qed

lemma sample_pool_distinct: "distinct pool \<Longrightarrow> distinct (sample_pool pool k rnd i)"
proof -
  assume "distinct pool"
  then have "\<forall>x. count (mset pool) x \<le> 1" by (simp add: distinct_count_le_1)
  moreover have "\<forall>x. count (mset (sample_pool pool k rnd i)) x \<le> count (mset pool) x"
    using sample_pool_mset [of pool k rnd i] by (simp add: mset_subset_eq_count)
  ultimately have "\<forall>x. count (mset (sample_pool pool k rnd i)) x \<le> 1"
    using le_trans by blast
  then show ?thesis by (simp add: distinct_count_le_1)
qed

lemma sample_pool_all:
  "length pool \<le> k \<Longrightarrow> mset (sample_pool pool k rnd i) = mset pool"
proof (induction k arbitrary: pool i)
  case 0
  then show ?case by simp
next
  case (Suc k)
  show ?case
  proof (cases "pool = []")
    case True
    then show ?thesis by simp
  next
    case False
    let ?j = "rnd i mod length pool"
    let ?rest = "butlast (pool[?j := last pool])"
    from False have j: "?j < length pool" by simp
    have "length ?rest \<le> k" using Suc.prems by simp
    then have "mset (sample_pool ?rest k rnd (Suc i)) = mset ?rest" by (rule Suc.IH)
    with mset_take_out [OF j] False show ?thesis by (simp add: Let_def)
  qed
qed

lemma random_sample_ok:
  assumes "0 \<le> k" "k \<le> int (length xs)"
  shows "random_sample xs k rnd = Inr (sample_pool xs (nat k) rnd 0)"
  using assms by (simp add: random_sample_def)

subsection \<open>The unsent addresses and the batch\<close>

lemma unsent_emails_from_list:
  "unsent_emails src pd = Inr unsent \<Longrightarrow> set unsent \<subseteq> set (load_email_list src) \<and> distinct unsent"
  by (auto simp: unsent_emails_def Let_def distinct_load_email_list split: sum.splits)

lemma unsent_emails_excludes:
  assumes "unsent_emails src pd = Inr unsent" "e \<in> set unsent"
    "it \<in> set (attempts pd)" "item_email it = JStr a"
  shows "lower e \<noteq> lower a"
proof
  assume eq: "lower e = lower a"
  from assms(1) obtain s where s: "sent_addresses (attempts pd) [] = Inr s"
    and u: "unsent = filter (\<lambda>email. lower email \<notin> set s) (load_email_list src)"
    by (auto simp: unsent_emails_def Let_def split: sum.splits)
  from assms(2) u have l: "e \<in> set (load_email_list src)" and n: "lower e \<notin> set s" by auto
  from l have "e \<noteq> []" using load_email_list_normal by (auto simp: normal_address_def)
  then have "lower e \<noteq> []" by (simp add: lower_Nil_iff)
  with eq have "a \<noteq> []" by (auto simp: lower_Nil_iff)
  moreover from assms(3,4) have "JStr a \<in> item_email ` set (attempts pd)" by force
  ultimately have "lower a \<in> set s" using sent_addresses_set [OF s] by auto
  with eq n show False by simp
qed

lemma get_unsent_emails_subset:
  assumes "get_unsent_emails src pd limit rnd = Inr batch"
  shows "\<exists>unsent. unsent_emails src pd = Inr unsent \<and> set batch \<subseteq> set unsent"
proof -
  from assms obtain unsent where u: "unsent_emails src pd = Inr unsent"
    by (auto simp: get_unsent_emails_def split: sum.splits)
  show ?thesis
  proof (cases "unsent = []")
    case True
    with assms u show ?thesis by (simp add: get_unsent_emails_def)
  next
    case False
    with assms u have "random_sample unsent (min limit (int (length unsent))) rnd = Inr batch"
      by (simp add: get_unsent_emails_def Let_def)
    then have "batch = sample_pool unsent (nat (min limit (int (length unsent)))) rnd 0"
      by (simp add: random_sample_def split: if_splits)
    then have "mset batch \<subseteq># mset unsent" by (simp add: sample_pool_mset)
    then have "set batch \<subseteq> set unsent" using set_mset_mono by fastforce
    with u show ?thesis by blast
  qed
qed

lemma get_unsent_emails_returns:
  assumes "0 \<le> limit" "unsent_emails src pd = Inr unsent"
  shows "get_unsent_emails src pd limit rnd
           = Inr (sample_pool unsent (nat (min limit (int (length unsent)))) rnd 0)"
proof (cases "unsent = []")
  case True
  with assms show ?thesis by (simp add: get_unsent_emails_def)
next
  case False
  with assms show ?thesis by (simp add: get_unsent_emails_def random_sample_def Let_def)
qed

text \<open>
  C1. Whatever the recipient list and the ledger, no address of the batch that
  \<open>get_unsent_emails\<close> returns equals, letter case aside, the address of an attempt
  record of the ledger, successful or failed. (The function does return a batch when the
  limit is not negative and the recorded addresses are strings.)
\<close>

theorem get_unsent_emails_excludes_attempted:
  "(0 \<le> limit \<and> (\<forall>it\<in>set (attempts pd). \<exists>a. item_email it = JStr a)
      \<longrightarrow> (\<exists>batch. get_unsent_emails src pd limit rnd = Inr batch))
   \<and> (\<forall>batch. get_unsent_emails src pd limit rnd = Inr batch
         \<longrightarrow> (\<forall>e\<in>set batch. \<forall>it\<in>set (attempts pd). \<forall>a.
                item_email it = JStr a \<longrightarrow> lower e \<noteq> lower a))"
proof (intro conjI impI allI ballI)
  assume a: "0 \<le> limit \<and> (\<forall>it\<in>set (attempts pd). \<exists>a. item_email it = JStr a)"
  then obtain s where "sent_addresses (attempts pd) [] = Inr s"
    using sent_addresses_strings by blast
  then have "\<exists>unsent. unsent_emails src pd = Inr unsent" by (simp add: unsent_emails_def)
  then obtain unsent where "unsent_emails src pd = Inr unsent" ..
  from get_unsent_emails_returns [OF _ this, of limit rnd] a
  show "\<exists>batch. get_unsent_emails src pd limit rnd = Inr batch" by blast
next
  fix batch e it a
  assume "get_unsent_emails src pd limit rnd = Inr batch" "e \<in> set batch"
    "it \<in> set (attempts pd)" "item_email it = JStr a"
  with get_unsent_emails_subset unsent_emails_excludes
  show "lower e \<noteq> lower a" by blast
qed

text \<open>
  C4, amended. For every limit that is not negative, the batch has exactly
  \<open>min(limit, |unsent|)\<close> addresses, each drawn from the unsent addresses and none
  drawn twice, so without duplicates; when there are at most \<open>limit\<close> unsent addresses
  the batch is all of them, in some order. The claim as stated fails for a negative limit:
  then the sampling raises \<open>ValueError\<close>.
\<close>

theorem get_unsent_emails_batch:
  assumes "0 \<le> limit" "unsent_emails src pd = Inr unsent"
  shows "\<exists>batch. get_unsent_emails src pd limit rnd = Inr batch
           \<and> int (length batch) = min limit (int (length unsent))
           \<and> mset batch \<subseteq># mset unsent
           \<and> distinct batch
           \<and> (int (length unsent) \<le> limit \<longrightarrow> mset batch = mset unsent)"
proof -
  let ?k = "nat (min limit (int (length unsent)))"
  let ?batch = "sample_pool unsent ?k rnd 0"
  have r: "get_unsent_emails src pd limit rnd = Inr ?batch"
    using assms by (rule get_unsent_emails_returns)
  have "?k \<le> length unsent" by simp
  then have "length ?batch = ?k" by (rule length_sample_pool)
  with assms(1) have l: "int (length ?batch) = min limit (int (length unsent))" by simp
  have m: "mset ?batch \<subseteq># mset unsent" by (rule sample_pool_mset)
  from assms(2) have "distinct unsent" using unsent_emails_from_list by blast
  then have d: "distinct ?batch" by (rule sample_pool_distinct)
  have a: "int (length unsent) \<le> limit \<longrightarrow> mset ?batch = mset unsent"
  proof
    assume "int (length unsent) \<le> limit"
    then have "length unsent \<le> ?k" by simp
    then show "mset ?batch = mset unsent" by (rule sample_pool_all)
  qed
  from r l m d a show ?thesis by blast
qed

lemma load_two_addresses: "load_email_list two_addresses = [''a@x.com'', ''b@x.com'']"
proof -
  have "load_email_list (same_under_all (CsvRead [''email'']
          (map email_row [''a@x.com'', ''b@x.com'']) None)) = [''a@x.com'', ''b@x.com'']"
    unfolding load_same_under_all by (simp add: accepted_def split_len_def string_eval)
  then show ?thesis by (simp add: two_addresses_def)
qed

lemma attempts_failed_upper_case:
  "map item_email (attempts failed_upper_case) = [JStr ''A@X.com'']"
  by (simp add: failed_upper_case_def mark_email_sent_def fresh_progress_def attempts_def
        Let_def dict_get_def)

lemma unsent_fresh: "unsent_emails two_addresses fresh_progress = Inr [''a@x.com'', ''b@x.com'']"
  by (simp add: unsent_emails_def load_two_addresses fresh_progress_def attempts_def)

lemma unsent_failed_upper_case:
  "unsent_emails two_addresses failed_upper_case = Inr [''b@x.com'']"
  by (simp add: unsent_emails_def load_two_addresses failed_upper_case_def mark_email_sent_def
        fresh_progress_def attempts_def Let_def dict_get_def string_eval)

theorem get_unsent_emails_batch_counterexample:
  "unsent_emails two_addresses fresh_progress = Inr [''a@x.com'', ''b@x.com'']
   \<and> get_unsent_emails two_addresses fresh_progress (- 1) id
       = Inl (Exn ValueError ''Sample larger than population or is negative'')"
  by (simp add: unsent_fresh get_unsent_emails_def random_sample_def)

theorem get_unsent_emails_batch_witness:
  "(0::int) \<le> 5
   \<and> unsent_emails two_addresses fresh_progress = Inr [''a@x.com'', ''b@x.com'']
   \<and> int (length [''a@x.com'', ''b@x.com'']) \<le> 5
   \<and> (\<exists>batch. get_unsent_emails two_addresses fresh_progress 5 id = Inr batch
         \<and> int (length batch) = 2 \<and> distinct batch
         \<and> mset batch = mset [''a@x.com'', ''b@x.com''])"
proof -
  have h: "(0::int) \<le> 5" by simp
  from get_unsent_emails_batch [OF h unsent_fresh, of id]
  show ?thesis by (auto simp: unsent_fresh)
qed

theorem get_unsent_emails_excludes_attempted_witness:
  "(0::int) \<le> 50
   \<and> map item_email (attempts failed_upper_case) = [JStr ''A@X.com'']
   \<and> get_unsent_emails two_addresses failed_upper_case 50 id = Inr [''b@x.com'']
   \<and> lower ''b@x.com'' \<noteq> lower ''A@X.com''"
proof -
  have g: "get_unsent_emails two_addresses failed_upper_case 50 id = Inr [''b@x.com'']"
    by (simp add: get_unsent_emails_def unsent_failed_upper_case random_sample_def)
  from attempts_failed_upper_case obtain it where i: "attempts failed_upper_case = [it]"
    and e: "item_email it = JStr ''A@X.com''" by auto
  from get_unsent_emails_excludes_attempted [of 50 failed_upper_case two_addresses id] g i e
  have "lower ''b@x.com'' \<noteq> lower ''A@X.com''" by auto
  with g attempts_failed_upper_case show ?thesis by simp
qed

subsection \<open>A run with nothing left to send\<close>

lemma all_attempted_unsent:
  assumes "\<forall>e\<in>set (load_email_list src). \<exists>it\<in>set (attempts pd). \<exists>a.
             item_email it = JStr a \<and> lower a = lower e"
    and s: "sent_addresses (attempts pd) [] = Inr s"
  shows "unsent_emails src pd = Inr []"
proof -
  have "\<forall>e\<in>set (load_email_list src). lower e \<in> set s"
  proof
    fix e assume e: "e \<in> set (load_email_list src)"
    with assms(1) obtain it a where it: "it \<in> set (attempts pd)" "item_email it = JStr a"
      and eq: "lower a = lower e" by blast
    from e have "e \<noteq> []" using load_email_list_normal by (auto simp: normal_address_def)
    with eq have "a \<noteq> []" by (metis lower_Nil_iff)
    moreover from it have "JStr a \<in> item_email ` set (attempts pd)" by force
    ultimately have "lower a \<in> set s" using sent_addresses_set [OF s] by auto
    with eq show "lower e \<in> set s" by simp
  qed
  then have "filter (\<lambda>email. lower email \<notin> set s) (load_email_list src) = []"
    by (simp add: filter_empty_conv)
  with s show ?thesis by (simp add: unsent_emails_def)
qed

text \<open>
  When every address of the list has an attempt record, no message goes to the gateway,
  whatever the counts are. How the run ends depends on the counts: with "Campaign
  complete" only when the ledger has exactly as many records as the list has addresses.
\<close>

lemma run_email_campaign_all_attempted:
  assumes "\<forall>e\<in>set (load_email_list (env_csv E)).
             \<exists>it\<in>set (attempts (load_progress (env_progress E))). \<exists>a.
               item_email it = JStr a \<and> lower a = lower e"
  shows "rs_calls (snd (run_email_campaign E batch_size)) = []
         \<and> fst (run_email_campaign E batch_size)
             = (case get_campaign_stats (env_csv E) (load_progress (env_progress E)) of
                  Inl ex \<Rightarrow> Raised ex
                | Inr stats \<Rightarrow>
                    if length (load_email_list (env_csv E))
                         = length (attempts (load_progress (env_progress E)))
                    then CampaignComplete
                    else case sent_addresses (attempts (load_progress (env_progress E))) [] of
                           Inl ex \<Rightarrow> Raised ex
                         | Inr s \<Rightarrow> NoEmailsToSend)"
proof (cases "get_campaign_stats (env_csv E) (load_progress (env_progress E))")
  case (Inl ex)
  then show ?thesis by (simp add: run_email_campaign_def Let_def)
next
  case (Inr stats)
  then have rem: "emails_remaining stats
      = int (length (load_email_list (env_csv E)))
        - int (length (attempts (load_progress (env_progress E))))"
    by (auto simp: get_campaign_stats_def Let_def split: option.splits)
  show ?thesis
  proof (cases "length (load_email_list (env_csv E))
                  = length (attempts (load_progress (env_progress E)))")
    case True
    with Inr rem show ?thesis by (simp add: run_email_campaign_def Let_def)
  next
    case False
    with rem have r: "emails_remaining stats \<noteq> 0" by simp
    show ?thesis
    proof (cases "sent_addresses (attempts (load_progress (env_progress E))) []")
      case (Inl ex)
      then have "get_unsent_emails (env_csv E) (load_progress (env_progress E)) batch_size
                   (env_rnd E) = Inl ex"
        by (simp add: get_unsent_emails_def unsent_emails_def)
      with r False Inl Inr show ?thesis by (simp add: run_email_campaign_def Let_def)
    next
      case (Inr s)
      from all_attempted_unsent [OF assms Inr]
      have "get_unsent_emails (env_csv E) (load_progress (env_progress E)) batch_size
              (env_rnd E) = Inr []"
        by (simp add: get_unsent_emails_def)
      with r False Inr \<open>get_campaign_stats (env_csv E) (load_progress (env_progress E)) = Inr stats\<close>
      show ?thesis by (simp add: run_email_campaign_def Let_def)
    qed
  qed
qed

lemma load_one_address: "load_email_list one_address = [''a@x.com'']"
proof -
  have "load_email_list (same_under_all (CsvRead [''email''] (map email_row [''a@x.com'']) None))
          = [''a@x.com'']"
    unfolding load_same_under_all by (simp add: accepted_def split_len_def string_eval)
  then show ?thesis by (simp add: one_address_def)
qed

lemma sent_a_eval:
  "sent_a = \<lparr>sent_emails = Some (Entries
       [Dict [''email'' \<mapsto> JStr ''a@x.com'', ''timestamp'' \<mapsto> JStr ''t1'',
              ''success'' \<mapsto> JBool True, ''error'' \<mapsto> JStr []]]),
     campaign_stats = Some (Stats [''total_sent'' \<mapsto> JInt 1, ''last_run'' \<mapsto> JNull,
        ''successful'' \<mapsto> JInt 1, ''failed'' \<mapsto> JInt 0])\<rparr>"
  by (simp add: sent_a_def mark_email_sent_def fresh_progress_def attempts_def Let_def
        dict_get_def fun_upd_twist)

lemma sent_a_and_b_eval:
  "sent_a_and_b = \<lparr>sent_emails = Some (Entries
       [Dict [''email'' \<mapsto> JStr ''a@x.com'', ''timestamp'' \<mapsto> JStr ''t1'',
              ''success'' \<mapsto> JBool True, ''error'' \<mapsto> JStr []],
        Dict [''email'' \<mapsto> JStr ''b@x.com'', ''timestamp'' \<mapsto> JStr ''t2'',
              ''success'' \<mapsto> JBool True, ''error'' \<mapsto> JStr []]]),
     campaign_stats = Some (Stats [''total_sent'' \<mapsto> JInt 2, ''last_run'' \<mapsto> JNull,
        ''successful'' \<mapsto> JInt 2, ''failed'' \<mapsto> JInt 0])\<rparr>"
  by (simp add: sent_a_and_b_def mark_email_sent_def fresh_progress_def attempts_def Let_def
        dict_get_def fun_upd_twist)

lemma attempts_sent_a: "map item_email (attempts sent_a) = [JStr ''a@x.com'']"
  by (simp add: sent_a_eval attempts_def dict_get_def)

lemma attempts_sent_a_and_b:
  "map item_email (attempts sent_a_and_b) = [JStr ''a@x.com'', JStr ''b@x.com'']"
  by (simp add: sent_a_and_b_eval attempts_def dict_get_def)

lemma sent_addresses_map:
  "map item_email its = map JStr as \<Longrightarrow>
     sent_addresses its acc = Inr (acc @ map lower (filter (\<lambda>a. a \<noteq> []) as))"
  by (induction its arbitrary: acc as) auto

text \<open>
  C7. The list has the one address \<open>a@x.com\<close>, and the ledger has a record for it and a
  record for \<open>b@x.com\<close>, an address that is no longer in the list. Every address of the
  list has been attempted, and no message goes to the gateway; but the run computes the
  remaining count as the difference of the two lengths, which is -1 and not 0, passes the
  test for "Campaign complete" and ends with "No emails to send!".
\<close>

theorem run_email_campaign_misses_complete:
  "load_email_list (env_csv (campaign_env one_address sent_a_and_b)) = [''a@x.com'']
   \<and> map item_email (attempts (load_progress (env_progress (campaign_env one_address sent_a_and_b))))
       = [JStr ''a@x.com'', JStr ''b@x.com'']
   \<and> get_campaign_stats one_address sent_a_and_b
       = Inr \<lparr>total_emails_in_csv = 1, emails_sent = 2, emails_remaining = - 1,
              successful_sends = JInt 2, failed_sends = JInt 0, last_run = JNull\<rparr>
   \<and> fst (run_email_campaign (campaign_env one_address sent_a_and_b) 50) = NoEmailsToSend
   \<and> fst (run_email_campaign (campaign_env one_address sent_a_and_b) 50) \<noteq> CampaignComplete
   \<and> rs_calls (snd (run_email_campaign (campaign_env one_address sent_a_and_b) 50)) = []"
proof -
  let ?E = "campaign_env one_address sent_a_and_b"
  have 1: "load_email_list (env_csv ?E) = [''a@x.com'']"
    by (simp add: campaign_env_def load_one_address)
  have p: "load_progress (env_progress ?E) = sent_a_and_b"
    by (simp add: campaign_env_def load_progress_def)
  have 2: "map item_email (attempts (load_progress (env_progress ?E)))
       = [JStr ''a@x.com'', JStr ''b@x.com'']"
    by (simp add: p attempts_sent_a_and_b)
  have m: "map item_email (attempts sent_a_and_b) = map JStr [''a@x.com'', ''b@x.com'']"
    by (simp add: attempts_sent_a_and_b)
  have l: "length (attempts sent_a_and_b) = 2"
    using arg_cong [OF attempts_sent_a_and_b, of length] by simp
  have g: "get_campaign_stats one_address sent_a_and_b
       = Inr \<lparr>total_emails_in_csv = 1, emails_sent = 2, emails_remaining = - 1,
              successful_sends = JInt 2, failed_sends = JInt 0, last_run = JNull\<rparr>"
    by (simp add: get_campaign_stats_def load_one_address l Let_def)
       (simp add: sent_a_and_b_eval dict_get_def)
  have u: "unsent_emails one_address sent_a_and_b = Inr []"
    by (simp add: unsent_emails_def load_one_address sent_addresses_map [OF m] string_eval)
  have e: "env_csv ?E = one_address" by (simp add: campaign_env_def)
  have 3: "run_email_campaign ?E 50
           = (NoEmailsToSend, \<lparr>rs_progress = sent_a_and_b, rs_calls = [], rs_saved = None,
                                rs_successful = 0, rs_failed = 0\<rparr>)"
    unfolding run_email_campaign_def p e Let_def
    by (simp add: g get_unsent_emails_def u)
  from 1 2 g show ?thesis unfolding 3 by simp
qed

text \<open>
  For comparison: with the same list and a record for \<open>a@x.com\<close> alone, the counts agree
  and the run ends with "Campaign complete"; with a fresh ledger and a gateway that
  accepts, one message goes out and the attempt is recorded as successful; and with a
  ledger whose \<open>campaign_stats\<close> is null, the run ends with the exception of
  \<open>get_campaign_stats\<close>.
\<close>

lemma run_email_campaign_complete:
  "fst (run_email_campaign (campaign_env one_address sent_a) 50) = CampaignComplete
   \<and> rs_calls (snd (run_email_campaign (campaign_env one_address sent_a) 50)) = []"
proof -
  let ?E = "campaign_env one_address sent_a"
  have 1: "load_email_list (env_csv ?E) = [''a@x.com'']"
    by (simp add: campaign_env_def load_one_address)
  have p: "load_progress (env_progress ?E) = sent_a"
    by (simp add: campaign_env_def load_progress_def)
  from attempts_sent_a obtain it where i: "attempts sent_a = [it]"
    and e: "item_email it = JStr ''a@x.com''" by auto
  have h: "\<forall>e\<in>set (load_email_list (env_csv ?E)).
             \<exists>it\<in>set (attempts (load_progress (env_progress ?E))). \<exists>a.
               item_email it = JStr a \<and> lower a = lower e"
    by (simp add: 1 p i e)
  have g: "\<exists>stats. get_campaign_stats (env_csv ?E) sent_a = Inr stats"
    by (simp add: get_campaign_stats_def sent_a_eval Let_def)
  from run_email_campaign_all_attempted [OF h, of 50] g
  show ?thesis by (auto simp: 1 p i)
qed

lemma run_email_campaign_null_stats:
  "run_email_campaign (campaign_env one_address null_stats_ledger) 50
     = (Raised (Exn AttributeError ''object has no attribute get''),
        \<lparr>rs_progress = null_stats_ledger, rs_calls = [], rs_saved = None,
         rs_successful = 0, rs_failed = 0\<rparr>)"
  by (simp add: run_email_campaign_def campaign_env_def load_progress_def
        get_campaign_stats_def null_stats_ledger_def Let_def)

lemma run_email_campaign_sends:
  "fst (run_email_campaign (campaign_env one_address fresh_progress) 50) = BatchComplete
   \<and> map mail_to (rs_calls (snd (run_email_campaign (campaign_env one_address fresh_progress) 50)))
       = [[''a@x.com'']]
   \<and> map item_email (attempts (rs_progress (snd (run_email_campaign
         (campaign_env one_address fresh_progress) 50)))) = [JStr ''a@x.com'']
   \<and> stats_get (rs_progress (snd (run_email_campaign
         (campaign_env one_address fresh_progress) 50))) ''successful'' = Inr (JInt 1)"
proof -
  let ?E = "campaign_env one_address fresh_progress"
  let ?marked = "snd (mark_email_sent ''a@x.com'' True [] ''now'' fresh_progress)"
  let ?final = "\<lparr>rs_progress = fst (save_progress ''now'' ?marked),
               rs_calls = [build_message ''me@x.com'' [''a@x.com''] ''Hello'' ''text'' [] ''Me''],
               rs_saved = snd (save_progress ''now'' ?marked),
               rs_successful = 1, rs_failed = 0\<rparr>"
  have p: "load_progress (env_progress ?E) = fresh_progress"
    by (simp add: campaign_env_def load_progress_def)
  have u: "unsent_emails one_address fresh_progress = Inr [''a@x.com'']"
    by (simp add: unsent_emails_def load_one_address fresh_progress_def attempts_def)
  have g: "get_unsent_emails one_address fresh_progress 50 id = Inr [''a@x.com'']"
    by (simp add: get_unsent_emails_def u random_sample_def)
  have v: "validate_email ''me@x.com''" "validate_email ''a@x.com''"
    by (simp_all add: validate_eval)
  have s: "strip ''Hello'' \<noteq> []" by (simp add: strip_def is_space_def)
  have r: "\<not> locally_rejected ''me@x.com'' [''a@x.com''] ''Hello'' ''text'' []"
    using v s by (simp add: locally_rejected_def)
  have c: "send_campaign_email ?E ''a@x.com''
             = Inr (\<lparr>success = True, status_code = Some 202, error = None\<rparr>,
                    [build_message ''me@x.com'' [''a@x.com''] ''Hello'' ''text'' [] ''Me''])"
    by (simp add: send_campaign_email_def campaign_env_def send_email_def
          send_email_try_sent [OF r] gateway_accepts_def)
  have mk: "fst (mark_email_sent ''a@x.com'' True [] ''now'' fresh_progress) = None"
    using fresh_well_formed by (rule mark_email_sent_well_formed(1))
  have sv: "\<exists>w. snd (save_progress ''now'' ?marked) = Some w"
    by (simp add: save_progress_def mark_email_sent_def fresh_progress_def attempts_def Let_def)
  have b: "send_batch ?E [''a@x.com''] 0
             \<lparr>rs_progress = fresh_progress, rs_calls = [], rs_saved = None,
              rs_successful = 0, rs_failed = 0\<rparr> = (None, ?final)"
  proof -
    have n: "env_now ?E 0 = ''now''" by (simp add: campaign_env_def)
    from sv obtain w where w: "snd (save_progress ''now'' ?marked) = Some w" ..
    show ?thesis
      using mk w by (simp add: c n Let_def split_beta)
  qed
  have e: "env_csv ?E = one_address" "env_rnd ?E = id" "env_api_key ?E \<noteq> []"
    by (simp_all add: campaign_env_def)
  have a: "attempts fresh_progress = []" by (simp add: fresh_progress_def attempts_def)
  have wf: "well_formed (fst (save_progress ''now'' ?marked))"
    by (simp add: save_progress_def mark_email_sent_def fresh_progress_def attempts_def Let_def
          well_formed_def)
  have gs: "\<exists>stats. get_campaign_stats one_address fresh_progress = Inr stats
              \<and> emails_remaining stats = 1"
    by (simp add: get_campaign_stats_def load_one_address attempts_def fresh_progress_def Let_def)
  have gf: "\<exists>stats. get_campaign_stats one_address (fst (save_progress ''now'' ?marked)) = Inr stats"
    by (simp add: get_campaign_stats_def save_progress_def mark_email_sent_def
          fresh_progress_def attempts_def Let_def)
  have run: "run_email_campaign ?E 50 = (BatchComplete, ?final)"
  proof -
    from gs obtain stats where s1: "get_campaign_stats one_address fresh_progress = Inr stats"
      and s2: "emails_remaining stats = 1" by blast
    from gf obtain stats' where s3:
      "get_campaign_stats one_address (fst (save_progress ''now'' ?marked)) = Inr stats'" ..
    show ?thesis
      unfolding run_email_campaign_def p e(1,2) Let_def
      by (simp add: s1 s2 s3 g b e(3) del: send_batch.simps)
  qed
  show ?thesis
    unfolding run
    by (simp add: build_message_def save_progress_def mark_email_sent_def fresh_progress_def
          attempts_def stats_get_def dict_get_def Let_def)
qed

end
